theory Spec2Isabelle
  imports Complex_Main
begin

section \<open>JavaScript strings\<close>

text \<open>
  A JavaScript string is a sequence of UTF-16 code units; \<open>length\<close>, indexing and the
  regular expressions of the program (none carries the \<open>u\<close> flag) all count code units.
  A code unit is modelled as a natural number and a string as a list of them;
  \<open>js\<close> embeds an ASCII literal.
\<close>

type_synonym jsstring = "nat list"

definition js :: "string \<Rightarrow> jsstring" where
  "js s = map of_char s"

text \<open>The line terminators of ECMAScript: LF, CR, U+2028 and U+2029.\<close>

definition isLineTerminator :: "nat \<Rightarrow> bool" where
  "isLineTerminator c = (c = 10 \<or> c = 13 \<or> c = 8232 \<or> c = 8233)"

text \<open>
  The code units matched by \<open>\s\<close> and removed by \<open>String.prototype.trim\<close>: TAB, LF, VT,
  FF, CR, space, U+00A0, U+1680, U+2000 to U+200A, U+2028, U+2029, U+202F, U+205F,
  U+3000 and U+FEFF.
\<close>

definition isWhiteSpace :: "nat \<Rightarrow> bool" where
  "isWhiteSpace c =
     (c = 9 \<or> c = 10 \<or> c = 11 \<or> c = 12 \<or> c = 13 \<or> c = 32 \<or> c = 160 \<or> c = 5760
      \<or> (8192 \<le> c \<and> c \<le> 8202) \<or> c = 8232 \<or> c = 8233 \<or> c = 8239 \<or> c = 8287
      \<or> c = 12288 \<or> c = 65279)"

definition trim :: "jsstring \<Rightarrow> jsstring" where
  "trim s = rev (dropWhile isWhiteSpace (rev (dropWhile isWhiteSpace s)))"

text \<open>
  \<open>toLowerCase\<close> on the letters A to Z. The parser applies it to text that a
  case-insensitive match against an ASCII word has produced, where this is exact. The
  extractor applies it to a heading's text before it looks for ASCII keywords; code
  units outside A to Z are left as they are, which approximates the Unicode mapping
  there.
\<close>

definition lowerUnit :: "nat \<Rightarrow> nat" where
  "lowerUnit c = (if 65 \<le> c \<and> c \<le> 90 then c + 32 else c)"

definition toLowerCase :: "jsstring \<Rightarrow> jsstring" where
  "toLowerCase s = map lowerUnit s"

definition startsWith :: "jsstring \<Rightarrow> jsstring \<Rightarrow> bool" where
  "startsWith s p = (take (length p) s = p)"

text \<open>\<open>s.includes(p)\<close>: some suffix of \<open>s\<close> starts with \<open>p\<close>.\<close>

fun jsIncludes :: "jsstring \<Rightarrow> jsstring \<Rightarrow> bool" where
  "jsIncludes [] p = (p = [])"
| "jsIncludes (c # cs) p = (startsWith (c # cs) p \<or> jsIncludes cs p)"

text \<open>\<open>s.indexOf(p)\<close>, with \<open>None\<close> for -1.\<close>

fun indexOf :: "jsstring \<Rightarrow> jsstring \<Rightarrow> nat option" where
  "indexOf [] p = (if p = [] then Some 0 else None)"
| "indexOf (c # cs) p =
     (if startsWith (c # cs) p then Some 0 else map_option Suc (indexOf cs p))"

text \<open>\<open>s.split(sep)\<close> for a one-unit separator: the empty string gives one empty piece.\<close>

fun splitOn :: "nat \<Rightarrow> jsstring \<Rightarrow> jsstring list" where
  "splitOn sep [] = [[]]"
| "splitOn sep (c # cs) =
     (if c = sep then [] # splitOn sep cs
      else (case splitOn sep cs of [] \<Rightarrow> [[c]] | l # ls \<Rightarrow> (c # l) # ls))"

fun joinWith :: "jsstring \<Rightarrow> jsstring list \<Rightarrow> jsstring" where
  "joinWith sep [] = []"
| "joinWith sep [x] = x"
| "joinWith sep (x # y # ys) = x @ sep @ joinWith sep (y # ys)"


section \<open>Regular expressions\<close>

text \<open>
  The fragment of ECMAScript regular expressions that the program's literals use.
  Every quantifier of the program stands on a single character class, so \<open>Rep\<close> takes a
  class: \<open>Rep greedy min max k\<close> is \<open>k{min,max}\<close>, lazy when \<open>greedy\<close> is false. The only
  lookbehind is a negated one on a class (\<open>NotBehind\<close>).
\<close>

datatype cset =
    CAny                 \<comment> \<open>\<open>[\s\S]\<close>\<close>
  | CDot                 \<comment> \<open>\<open>.\<close>: anything but a line terminator\<close>
  | CSpace               \<comment> \<open>\<open>\s\<close>\<close>
  | COneOf jsstring      \<comment> \<open>\<open>[abc]\<close>\<close>
  | CNoneOf jsstring     \<comment> \<open>\<open>[^abc]\<close>\<close>
  | CRange nat nat       \<comment> \<open>\<open>[a-b]\<close>\<close>

fun inCset :: "cset \<Rightarrow> nat \<Rightarrow> bool" where
  "inCset CAny c = True"
| "inCset CDot c = (\<not> isLineTerminator c)"
| "inCset CSpace c = isWhiteSpace c"
| "inCset (COneOf xs) c = (c \<in> set xs)"
| "inCset (CNoneOf xs) c = (c \<notin> set xs)"
| "inCset (CRange a b) c = (a \<le> c \<and> c \<le> b)"

datatype regex =
    Lit jsstring               \<comment> \<open>a sequence of literal characters\<close>
  | Chr cset                   \<comment> \<open>one character of a class\<close>
  | Rep bool nat "nat option" cset
  | Seq regex regex
  | Alt regex regex
  | Group nat regex            \<comment> \<open>capture group number n\<close>
  | Ahead bool regex           \<comment> \<open>\<open>(?=r)\<close> when true, \<open>(?!r)\<close> when false\<close>
  | NotBehind cset             \<comment> \<open>\<open>(?<![...])\<close>\<close>
  | Bol                        \<comment> \<open>\<open>^\<close>\<close>
  | Eol                        \<comment> \<open>\<open>$\<close>\<close>

abbreviation Star :: "cset \<Rightarrow> regex" where "Star k \<equiv> Rep True 0 None k"
abbreviation StarLazy :: "cset \<Rightarrow> regex" where "StarLazy k \<equiv> Rep False 0 None k"
abbreviation Plus :: "cset \<Rightarrow> regex" where "Plus k \<equiv> Rep True (Suc 0) None k"
abbreviation PlusLazy :: "cset \<Rightarrow> regex" where "PlusLazy k \<equiv> Rep False (Suc 0) None k"
abbreviation Opt :: "cset \<Rightarrow> regex" where "Opt k \<equiv> Rep True 0 (Some (Suc 0)) k"

fun seqs :: "regex list \<Rightarrow> regex" where
  "seqs [] = Lit []"
| "seqs [r] = r"
| "seqs (r # rs) = Seq r (seqs rs)"

fun alts :: "regex list \<Rightarrow> regex" where
  "alts [] = Lit []"
| "alts [r] = r"
| "alts (r # rs) = Alt r (alts rs)"

record flags =
  ignoreCase :: bool
  multiline :: bool

definition noFlags :: flags where "noFlags = \<lparr>ignoreCase = False, multiline = False\<rparr>"
definition flagI :: flags where "flagI = \<lparr>ignoreCase = True, multiline = False\<rparr>"
definition flagM :: flags where "flagM = \<lparr>ignoreCase = False, multiline = True\<rparr>"
definition flagIM :: flags where "flagIM = \<lparr>ignoreCase = True, multiline = True\<rparr>"

text \<open>
  Canonicalize of a regular expression without the \<open>u\<close> flag: under \<open>i\<close> a code unit is
  compared through its upper case, and a code unit from 128 on never canonicalizes to
  an ASCII one. The literals of the program are ASCII, so only the letters a to z need
  mapping; the character classes of the program hold no letter and are unaffected.
\<close>

definition canonicalize :: "flags \<Rightarrow> nat \<Rightarrow> nat" where
  "canonicalize f c = (if ignoreCase f \<and> 97 \<le> c \<and> c \<le> 122 then c - 32 else c)"

text \<open>A literal at the start of \<open>rest\<close>, compared character by character.\<close>

fun litAt :: "flags \<Rightarrow> jsstring \<Rightarrow> jsstring \<Rightarrow> bool" where
  "litAt f [] rest = True"
| "litAt f (c # l) [] = False"
| "litAt f (c # l) (x # rest) =
     (if canonicalize f x = canonicalize f c then litAt f l rest else False)"

type_synonym caps = "(nat \<times> jsstring) list"

text \<open>
  A matcher state is a position of the subject and the captures so far: \<open>rest\<close> is the
  text from the position on, \<open>bef\<close> the text before it, reversed.
\<close>

type_synonym mstate = "jsstring \<times> jsstring \<times> caps"

fun decMax :: "nat option \<Rightarrow> nat option" where
  "decMax None = None"
| "decMax (Some m) = Some (m - 1)"

text \<open>
  The quantifiers, as the RepeatMatcher of ECMAScript runs them on a one-character
  atom. The greedy one takes a character while it may and falls back to the
  continuation \<open>c\<close> where the rest fails; the lazy one asks the continuation first.
\<close>

fun repGreedy :: "cset \<Rightarrow> nat \<Rightarrow> nat option \<Rightarrow> jsstring \<Rightarrow> jsstring \<Rightarrow>
    (jsstring \<Rightarrow> jsstring \<Rightarrow> mstate option) \<Rightarrow> mstate option" where
  "repGreedy k mn mx bef [] c = (if mn = 0 then c bef [] else None)"
| "repGreedy k mn mx bef (x # xs) c =
     (if inCset k x \<and> mx \<noteq> Some 0 then
        (case repGreedy k (mn - 1) (decMax mx) (x # bef) xs c of
           Some r \<Rightarrow> Some r
         | None \<Rightarrow> (if mn = 0 then c bef (x # xs) else None))
      else (if mn = 0 then c bef (x # xs) else None))"

fun repLazy :: "cset \<Rightarrow> nat \<Rightarrow> nat option \<Rightarrow> jsstring \<Rightarrow> jsstring \<Rightarrow>
    (jsstring \<Rightarrow> jsstring \<Rightarrow> mstate option) \<Rightarrow> mstate option" where
  "repLazy k mn mx bef [] c = (if mn = 0 then c bef [] else None)"
| "repLazy k mn mx bef (x # xs) c =
     (if mn = 0 then
        (case c bef (x # xs) of
           Some r \<Rightarrow> Some r
         | None \<Rightarrow>
             (if inCset k x \<and> mx \<noteq> Some 0 then repLazy k 0 (decMax mx) (x # bef) xs c
              else None))
      else (if inCset k x \<and> mx \<noteq> Some 0 then repLazy k (mn - 1) (decMax mx) (x # bef) xs c
            else None))"

text \<open>
  The backtracking matcher of ECMAScript: \<open>matchC f r bef rest cs c\<close> matches \<open>r\<close> at the
  position \<open>(bef, rest)\<close> and hands each way to match, in the order of the
  specification, to the continuation \<open>c\<close> until one succeeds.
\<close>

fun matchC :: "flags \<Rightarrow> regex \<Rightarrow> jsstring \<Rightarrow> jsstring \<Rightarrow> caps \<Rightarrow>
    (jsstring \<Rightarrow> jsstring \<Rightarrow> caps \<Rightarrow> mstate option) \<Rightarrow> mstate option" where
  "matchC f (Lit l) bef rest cs c =
     (if litAt f l rest then c (rev (take (length l) rest) @ bef) (drop (length l) rest) cs
      else None)"
| "matchC f (Chr k) bef rest cs c =
     (case rest of [] \<Rightarrow> None | x # xs \<Rightarrow> (if inCset k x then c (x # bef) xs cs else None))"
| "matchC f (Rep greedy mn mx k) bef rest cs c =
     (if greedy then repGreedy k mn mx bef rest (\<lambda>b r. c b r cs)
      else repLazy k mn mx bef rest (\<lambda>b r. c b r cs))"
| "matchC f (Seq r1 r2) bef rest cs c =
     matchC f r1 bef rest cs (\<lambda>b r cs'. matchC f r2 b r cs' c)"
| "matchC f (Alt r1 r2) bef rest cs c =
     (case matchC f r1 bef rest cs c of
        Some x \<Rightarrow> Some x
      | None \<Rightarrow> matchC f r2 bef rest cs c)"
| "matchC f (Group n r1) bef rest cs c =
     matchC f r1 bef rest cs
       (\<lambda>b r cs'. c b r ((n, take (length rest - length r) rest) # cs'))"
| "matchC f (Ahead positive r1) bef rest cs c =
     (case matchC f r1 bef rest cs (\<lambda>b r cs'. Some (b, r, cs')) of
        None \<Rightarrow> (if positive then None else c bef rest cs)
      | Some (b, r, cs') \<Rightarrow> (if positive then c bef rest cs' else None))"
| "matchC f (NotBehind k) bef rest cs c =
     (case bef of [] \<Rightarrow> c bef rest cs
      | p # ps \<Rightarrow> (if inCset k p then None else c bef rest cs))"
| "matchC f Bol bef rest cs c =
     (case bef of [] \<Rightarrow> c bef rest cs
      | p # ps \<Rightarrow> (if multiline f \<and> isLineTerminator p then c bef rest cs else None))"
| "matchC f Eol bef rest cs c =
     (case rest of [] \<Rightarrow> c bef rest cs
      | x # xs \<Rightarrow> (if multiline f \<and> isLineTerminator x then c bef rest cs else None))"

text \<open>The match at exactly this position, if there is one: its text and its captures.\<close>

definition matchHere :: "flags \<Rightarrow> regex \<Rightarrow> jsstring \<Rightarrow> jsstring \<Rightarrow> (jsstring \<times> caps) option" where
  "matchHere f r bef rest =
     (case matchC f r bef rest [] (\<lambda>b r cs. Some (b, r, cs)) of
        None \<Rightarrow> None
      | Some (b, r, cs) \<Rightarrow> Some (take (length rest - length r) rest, cs))"

text \<open>A capture group's text; the empty string when the group took no part.\<close>

definition group :: "caps \<Rightarrow> nat \<Rightarrow> jsstring" where
  "group cs n = (case map_of cs n of None \<Rightarrow> [] | Some t \<Rightarrow> t)"

text \<open>
  \<open>exec\<close> without the \<open>g\<close> flag: start positions are tried from left to right. The
  result is the text before the match, the match and its captures.
\<close>

fun searchFrom :: "flags \<Rightarrow> regex \<Rightarrow> jsstring \<Rightarrow> jsstring \<Rightarrow> (jsstring \<times> jsstring \<times> caps) option" where
  "searchFrom f r bef [] =
     (case matchHere f r bef [] of None \<Rightarrow> None | Some (m, cs) \<Rightarrow> Some (rev bef, m, cs))"
| "searchFrom f r bef (c # rest) =
     (case matchHere f r bef (c # rest) of
        Some (m, cs) \<Rightarrow> Some (rev bef, m, cs)
      | None \<Rightarrow> searchFrom f r (c # bef) rest)"

definition regexExec :: "flags \<Rightarrow> regex \<Rightarrow> jsstring \<Rightarrow> (jsstring \<times> jsstring \<times> caps) option" where
  "regexExec f r s = searchFrom f r [] s"

definition regexTest :: "flags \<Rightarrow> regex \<Rightarrow> jsstring \<Rightarrow> bool" where
  "regexTest f r s = (regexExec f r s \<noteq> None)"

text \<open>
  \<open>s.match(r)\<close> with the \<open>g\<close> flag: the texts of all matches, left to right. After a
  match of n characters the next n - 1 positions are skipped; after an empty match the
  search moves on by one position. No match gives the empty list (JavaScript: null).
\<close>

fun matchAllFrom :: "flags \<Rightarrow> regex \<Rightarrow> jsstring \<Rightarrow> jsstring \<Rightarrow> nat \<Rightarrow> jsstring list" where
  "matchAllFrom f r bef [] skip =
     (if 0 < skip then []
      else (case matchHere f r bef [] of None \<Rightarrow> [] | Some (m, cs) \<Rightarrow> [m]))"
| "matchAllFrom f r bef (c # rest) skip =
     (if 0 < skip then matchAllFrom f r (c # bef) rest (skip - 1)
      else (case matchHere f r bef (c # rest) of
              None \<Rightarrow> matchAllFrom f r (c # bef) rest 0
            | Some (m, cs) \<Rightarrow> m # matchAllFrom f r (c # bef) rest (length m - 1)))"

definition matchAll :: "flags \<Rightarrow> regex \<Rightarrow> jsstring \<Rightarrow> jsstring list" where
  "matchAll f r s = matchAllFrom f r [] s 0"

text \<open>A replacement string: literal text and references \<open>$n\<close> to capture groups.\<close>

datatype rpart = RText jsstring | RGroup nat

fun substPart :: "caps \<Rightarrow> rpart \<Rightarrow> jsstring" where
  "substPart cs (RText t) = t"
| "substPart cs (RGroup n) = group cs n"

definition subst :: "rpart list \<Rightarrow> caps \<Rightarrow> jsstring" where
  "subst tmpl cs = concat (map (substPart cs) tmpl)"

text \<open>\<open>s.replace(r, tmpl)\<close> with the \<open>g\<close> flag: every match, found as by \<open>matchAllFrom\<close>.\<close>

fun replaceAllFrom :: "flags \<Rightarrow> regex \<Rightarrow> rpart list \<Rightarrow> jsstring \<Rightarrow> jsstring \<Rightarrow> nat \<Rightarrow> jsstring" where
  "replaceAllFrom f r tmpl bef [] skip =
     (if 0 < skip then []
      else (case matchHere f r bef [] of None \<Rightarrow> [] | Some (m, cs) \<Rightarrow> subst tmpl cs))"
| "replaceAllFrom f r tmpl bef (c # rest) skip =
     (if 0 < skip then replaceAllFrom f r tmpl (c # bef) rest (skip - 1)
      else (case matchHere f r bef (c # rest) of
              None \<Rightarrow> c # replaceAllFrom f r tmpl (c # bef) rest 0
            | Some (m, cs) \<Rightarrow>
                subst tmpl cs @
                (if m = [] then c # replaceAllFrom f r tmpl (c # bef) rest 0
                 else replaceAllFrom f r tmpl (c # bef) rest (length m - 1))))"

definition replaceAll :: "flags \<Rightarrow> regex \<Rightarrow> rpart list \<Rightarrow> jsstring \<Rightarrow> jsstring" where
  "replaceAll f r tmpl s = replaceAllFrom f r tmpl [] s 0"

text \<open>\<open>s.replace(r, tmpl)\<close> without the \<open>g\<close> flag: the first match only.\<close>

definition replaceFirst :: "flags \<Rightarrow> regex \<Rightarrow> rpart list \<Rightarrow> jsstring \<Rightarrow> jsstring" where
  "replaceFirst f r tmpl s =
     (case regexExec f r s of
        None \<Rightarrow> s
      | Some (pre, m, cs) \<Rightarrow> pre @ subst tmpl cs @ drop (length pre + length m) s)"

text \<open>
  \<open>s.split(r)\<close> for a splitter without capture groups. \<open>cur\<close> is the piece being
  collected, reversed. At each position before the end the splitter is tried at exactly
  that position: a match ends the piece, except an empty match where the piece has just
  begun (the position then moves on by one); the end of the string is never tried.
\<close>

fun splitFrom :: "flags \<Rightarrow> regex \<Rightarrow> jsstring \<Rightarrow> jsstring \<Rightarrow> jsstring \<Rightarrow> nat \<Rightarrow> jsstring list" where
  "splitFrom f r bef [] cur skip = [rev cur]"
| "splitFrom f r bef (c # rest) cur skip =
     (if 0 < skip then splitFrom f r (c # bef) rest cur (skip - 1)
      else (case matchHere f r bef (c # rest) of
              None \<Rightarrow> splitFrom f r (c # bef) rest (c # cur) 0
            | Some (m, cs) \<Rightarrow>
                if m = [] then
                  (if cur = [] then splitFrom f r (c # bef) rest [c] 0
                   else rev cur # splitFrom f r (c # bef) rest [c] 0)
                else rev cur # splitFrom f r (c # bef) rest [] (length m - 1)))"

definition splitRegex :: "flags \<Rightarrow> regex \<Rightarrow> jsstring \<Rightarrow> jsstring list" where
  "splitRegex f r s =
     (if s = [] then (case matchHere f r [] [] of None \<Rightarrow> [[]] | Some x \<Rightarrow> [])
      else splitFrom f r [] s [] 0)"


section \<open>The markdown converter\<close>

text \<open>The five patterns of \<open>convertMarkdownToHtml\<close>, each used with the \<open>g\<close> flag.\<close>

definition reBoldStar :: regex where
  \<comment> \<open>\<open>/\*\*(.*?)\*\*/g\<close>\<close>
  "reBoldStar = seqs [Lit (js ''**''), Group 1 (StarLazy CDot), Lit (js ''**'')]"

definition reBoldUnderscore :: regex where
  \<comment> \<open>\<open>/__(.*?)__/g\<close>\<close>
  "reBoldUnderscore = seqs [Lit (js ''__''), Group 1 (StarLazy CDot), Lit (js ''__'')]"

definition reItalicStar :: regex where
  \<comment> \<open>\<open>/(?<![\*_])\*([^\*]+)\*(?![\*_])/g\<close>\<close>
  "reItalicStar =
     seqs [NotBehind (COneOf (js ''*_'')), Lit (js ''*''), Group 1 (Plus (CNoneOf (js ''*''))),
           Lit (js ''*''), Ahead False (Chr (COneOf (js ''*_'')))]"

definition reItalicUnderscore :: regex where
  \<comment> \<open>\<open>/(?<![\*_])_([^_]+)_(?![\*_])/g\<close>\<close>
  "reItalicUnderscore =
     seqs [NotBehind (COneOf (js ''*_'')), Lit (js ''_''), Group 1 (Plus (CNoneOf (js ''_''))),
           Lit (js ''_''), Ahead False (Chr (COneOf (js ''*_'')))]"

definition reCode :: regex where
  \<comment> \<open>\<open>/`([^`]+?)`/g\<close>\<close>
  "reCode = seqs [Lit [96], Group 1 (PlusLazy (CNoneOf [96])), Lit [96]]"

definition wrapIn :: "string \<Rightarrow> rpart list" where
  \<comment> \<open>the replacement \<open><tag>$1</tag>\<close>\<close>
  "wrapIn tag = [RText (js (''<'' @ tag @ ''>'')), RGroup 1, RText (js (''</'' @ tag @ ''>''))]"

text \<open>The list-marker step of the converter's line function.\<close>

definition stripListMarker :: "jsstring \<Rightarrow> jsstring" where
  "stripListMarker l = (if startsWith l (js ''* '') \<or> startsWith l (js ''- '') then drop 2 l else l)"

text \<open>The chain of five replacements of the converter's line function.\<close>

definition inlineMarkdown :: "jsstring \<Rightarrow> jsstring" where
  "inlineMarkdown l =
     replaceAll noFlags reCode (wrapIn ''code'')
       (replaceAll noFlags reItalicUnderscore (wrapIn ''em'')
         (replaceAll noFlags reItalicStar (wrapIn ''em'')
           (replaceAll noFlags reBoldUnderscore (wrapIn ''strong'')
             (replaceAll noFlags reBoldStar (wrapIn ''strong'') l))))"

definition processLine :: "jsstring \<Rightarrow> jsstring" where
  "processLine line = inlineMarkdown (stripListMarker (trim line))"

definition convertMarkdownToHtml :: "jsstring \<Rightarrow> jsstring" where
  "convertMarkdownToHtml text =
     (if text = [] then []
      else joinWith (js ''<br>'') (filter (\<lambda>l. 0 < length l) (map processLine (splitOn 10 text))))"


section \<open>The response parser\<close>

record clause =
  title :: jsstring
  text' :: jsstring
  severity :: jsstring
  category :: jsstring

record analysisResult =
  summary :: jsstring
  concerningClauses :: "clause list"

definition defaultSummary :: jsstring where
  "defaultSummary = js ''<p>Summary could not be parsed.</p>''"

definition reSummary :: regex where
  \<comment> \<open>\<open>/\*\*1\. SUMMARY:\*\*([\s\S]*?)(?=\*\*2\. CONCERNING CLAUSES:|$)/i\<close>\<close>
  "reSummary =
     seqs [Lit (js ''**1. SUMMARY:**''), Group 1 (StarLazy CAny),
           Ahead True (Alt (Lit (js ''**2. CONCERNING CLAUSES:'')) Eol)]"

definition reBullet :: regex where
  \<comment> \<open>\<open>/^[\*\-]\s+(.*)/gm\<close>\<close>
  "reBullet = seqs [Bol, Chr (COneOf (js ''*-'')), Plus CSpace, Group 1 (Star CDot)]"

definition reBulletMarker :: regex where
  \<comment> \<open>\<open>/^[\*\-]\s+/\<close>\<close>
  "reBulletMarker = seqs [Bol, Chr (COneOf (js ''*-'')), Plus CSpace]"

definition reClauses :: regex where
  \<comment> \<open>\<open>/\*\*2\. CONCERNING CLAUSES:\*\*([\s\S]*)/i\<close>\<close>
  "reClauses = seqs [Lit (js ''**2. CONCERNING CLAUSES:**''), Group 1 (Star CAny)]"

definition reBlockStart :: regex where
  \<comment> \<open>\<open>/(?=^[\*\-]?\s*\*\*.*?\*\*)/m\<close>\<close>
  "reBlockStart =
     Ahead True (seqs [Bol, Opt (COneOf (js ''*-'')), Star CSpace, Lit (js ''**''),
                       StarLazy CDot, Lit (js ''**'')])"

definition reTitle :: regex where
  \<comment> \<open>\<open>/^[\*\-]?\s*\*\*(.*?)\*\*/\<close>\<close>
  "reTitle =
     seqs [Bol, Opt (COneOf (js ''*-'')), Star CSpace, Lit (js ''**''),
           Group 1 (StarLazy CDot), Lit (js ''**'')]"

definition severityWords :: regex where
  \<comment> \<open>\<open>(High|Medium|Low)\<close>\<close>
  "severityWords = Group 1 (alts [Lit (js ''High''), Lit (js ''Medium''), Lit (js ''Low'')])"

definition categoryWords :: regex where
  \<comment> \<open>\<open>(Privacy|Data\sUsage|Legal\sRights|Service\sChanges|User\sContent)\<close>\<close>
  "categoryWords =
     Group 1 (alts [Lit (js ''Privacy''),
                    seqs [Lit (js ''Data''), Chr CSpace, Lit (js ''Usage'')],
                    seqs [Lit (js ''Legal''), Chr CSpace, Lit (js ''Rights'')],
                    seqs [Lit (js ''Service''), Chr CSpace, Lit (js ''Changes'')],
                    seqs [Lit (js ''User''), Chr CSpace, Lit (js ''Content'')]])"

definition reSeverity :: regex where
  \<comment> \<open>\<open>/Severity:\s*(High|Medium|Low)/i\<close>\<close>
  "reSeverity = seqs [Lit (js ''Severity:''), Star CSpace, severityWords]"

definition reCategory :: regex where
  \<comment> \<open>\<open>/Category:\s*(Privacy|Data\sUsage|Legal\sRights|Service\sChanges|User\sContent)/i\<close>\<close>
  "reCategory = seqs [Lit (js ''Category:''), Star CSpace, categoryWords]"

definition reSeverityLine :: regex where
  \<comment> \<open>\<open>/^\s*Severity:\s*(High|Medium|Low)\s*$/gim\<close>\<close>
  "reSeverityLine =
     seqs [Bol, Star CSpace, Lit (js ''Severity:''), Star CSpace, severityWords, Star CSpace, Eol]"

definition reCategoryLine :: regex where
  \<comment> \<open>\<open>/^\s*Category:\s*(Privacy|Data\sUsage|Legal\sRights|Service\sChanges|User\sContent)\s*$/gim\<close>\<close>
  "reCategoryLine =
     seqs [Bol, Star CSpace, Lit (js ''Category:''), Star CSpace, categoryWords, Star CSpace, Eol]"

text \<open>The summary half of \<open>parseAIResponse\<close>.\<close>

definition formatBullets :: "jsstring list \<Rightarrow> jsstring list" where
  "formatBullets bulletPoints =
     map convertMarkdownToHtml
       (filter (\<lambda>bullet. 0 < length bullet)
          (map (\<lambda>bullet. trim (replaceFirst noFlags reBulletMarker [] bullet)) bulletPoints))"

definition asParagraph :: "jsstring \<Rightarrow> jsstring" where
  "asParagraph summaryText = js ''<p>'' @ convertMarkdownToHtml summaryText @ js ''</p>''"

definition parseSummary :: "jsstring \<Rightarrow> jsstring" where
  "parseSummary aiResponse =
     (case regexExec flagI reSummary aiResponse of
        None \<Rightarrow> defaultSummary
      | Some (pre, m, cs) \<Rightarrow>
          if group cs 1 = [] then defaultSummary
          else
            (let summaryText = trim (group cs 1);
                 bulletPoints = matchAll flagM reBullet summaryText
             in if 0 < length bulletPoints then
                  (let formattedBullets = formatBullets bulletPoints
                   in if 0 < length formattedBullets then
                        js ''<ul>'' @
                        concat (map (\<lambda>bullet. js ''<li>'' @ bullet @ js ''</li>'') formattedBullets) @
                        js ''</ul>''
                      else asParagraph summaryText)
                else asParagraph summaryText))"

text \<open>
  The clause half. A block's title is \<open>None\<close> where the source has null; severity and
  category take their defaults where the label does not match.
\<close>

definition blockTitleMatch :: "jsstring \<Rightarrow> (jsstring \<times> jsstring \<times> caps) option" where
  "blockTitleMatch trimmedBlock = regexExec noFlags reTitle trimmedBlock"

definition blockTitle :: "jsstring \<Rightarrow> jsstring option" where
  "blockTitle trimmedBlock =
     (case blockTitleMatch trimmedBlock of None \<Rightarrow> None | Some (pre, m, cs) \<Rightarrow> Some (trim (group cs 1)))"

definition blockSeverity :: "jsstring \<Rightarrow> jsstring" where
  "blockSeverity trimmedBlock =
     (case regexExec flagI reSeverity trimmedBlock of
        None \<Rightarrow> js ''medium''
      | Some (pre, m, cs) \<Rightarrow> toLowerCase (group cs 1))"

definition normalizeCategory :: "jsstring \<Rightarrow> jsstring" where
  \<comment> \<open>\<open>.replace(/\s+/g, '-').toLowerCase()\<close>\<close>
  "normalizeCategory t = toLowerCase (replaceAll noFlags (Plus CSpace) [RText (js ''-'')] t)"

definition blockCategory :: "jsstring \<Rightarrow> jsstring" where
  "blockCategory trimmedBlock =
     (case regexExec flagI reCategory trimmedBlock of
        None \<Rightarrow> js ''general''
      | Some (pre, m, cs) \<Rightarrow> normalizeCategory (group cs 1))"

text \<open>
  The text after the title: \<open>substring(indexOf(titleMatch[0]) + titleMatch[0].length)\<close>.
  The match is a part of the block, so \<open>indexOf\<close> finds it; the -1 of a miss would give
  the offset \<open>length m - 1\<close>.
\<close>

definition afterTitle :: "jsstring \<Rightarrow> jsstring" where
  "afterTitle trimmedBlock =
     (case blockTitleMatch trimmedBlock of
        None \<Rightarrow> trimmedBlock
      | Some (pre, m, cs) \<Rightarrow>
          (case indexOf trimmedBlock m of
             Some i \<Rightarrow> drop (i + length m) trimmedBlock
           | None \<Rightarrow> drop (length m - 1) trimmedBlock))"

definition blockText :: "jsstring \<Rightarrow> jsstring" where
  "blockText trimmedBlock =
     convertMarkdownToHtml
       (trim (replaceAll flagIM reCategoryLine []
               (replaceAll flagIM reSeverityLine [] (afterTitle trimmedBlock))))"

text \<open>One pass of the loop body: the clause pushed, or \<open>None\<close> when the block is skipped.\<close>

definition parseBlock :: "jsstring \<Rightarrow> clause option" where
  "parseBlock block =
     (let trimmedBlock = trim block
      in if trimmedBlock = [] then None
         else (case blockTitle trimmedBlock of
                 None \<Rightarrow> None
               | Some t \<Rightarrow>
                   if t \<noteq> [] \<and> blockText trimmedBlock \<noteq> [] then
                     Some \<lparr>title = t, text' = blockText trimmedBlock,
                           severity = blockSeverity trimmedBlock,
                           category = blockCategory trimmedBlock\<rparr>
                   else None))"

text \<open>The blocks the loop runs over, for the text after the clauses marker.\<close>

definition validBlocks :: "jsstring \<Rightarrow> jsstring list" where
  "validBlocks clausesText =
     filter (\<lambda>block. 0 < length (trim block)) (splitRegex flagM reBlockStart clausesText)"

text \<open>
  The comparator of the sort and \<open>Array.prototype.sort\<close>, which is stable: an insertion
  sort that puts an element in front of the first element it must precede.
\<close>

definition orMedium :: "jsstring \<Rightarrow> jsstring" where
  "orMedium s = (if s = [] then js ''medium'' else s)"

definition compareSeverity :: "clause \<Rightarrow> clause \<Rightarrow> int" where
  "compareSeverity a b =
     (let severityA = orMedium (severity a); severityB = orMedium (severity b)
      in if severityA = js ''high'' \<and> severityB \<noteq> js ''high'' then -1
         else if severityA \<noteq> js ''high'' \<and> severityB = js ''high'' then 1
         else 0)"

fun insertSorted :: "('a \<Rightarrow> 'a \<Rightarrow> int) \<Rightarrow> 'a \<Rightarrow> 'a list \<Rightarrow> 'a list" where
  "insertSorted cmp x [] = [x]"
| "insertSorted cmp x (y # ys) = (if cmp y x \<le> 0 then y # insertSorted cmp x ys else x # y # ys)"

fun sortWith :: "('a \<Rightarrow> 'a \<Rightarrow> int) \<Rightarrow> 'a list \<Rightarrow> 'a list \<Rightarrow> 'a list" where
  "sortWith cmp acc [] = acc"
| "sortWith cmp acc (x # xs) = sortWith cmp (insertSorted cmp x acc) xs"

definition jsSort :: "('a \<Rightarrow> 'a \<Rightarrow> int) \<Rightarrow> 'a list \<Rightarrow> 'a list" where
  "jsSort cmp xs = sortWith cmp [] xs"

definition sortClauses :: "clause list \<Rightarrow> clause list" where
  "sortClauses cs = (if 1 < length cs then jsSort compareSeverity cs else cs)"

text \<open>The clauses in parse order, before the sort.\<close>

definition collectClauses :: "jsstring \<Rightarrow> clause list" where
  "collectClauses clausesText = List.map_filter parseBlock (validBlocks clausesText)"

definition parseClauses :: "jsstring \<Rightarrow> clause list" where
  "parseClauses aiResponse =
     (case regexExec flagI reClauses aiResponse of
        None \<Rightarrow> []
      | Some (pre, m, cs) \<Rightarrow>
          if group cs 1 = [] then []
          else sortClauses (collectClauses (trim (group cs 1))))"

text \<open>
  \<open>parseAIResponse\<close>. On a string no step of the body throws, so the handler of its
  \<open>try\<close> is never entered and the function returns the two parsed halves.
\<close>

definition parseAIResponse :: "jsstring \<Rightarrow> analysisResult" where
  "parseAIResponse aiResponse =
     \<lparr>summary = parseSummary aiResponse, concerningClauses = parseClauses aiResponse\<rparr>"

text \<open>Notions used in the statements about the parser.\<close>

definition isHigh :: "clause \<Rightarrow> bool" where
  "isHigh c = (severity c = js ''high'')"

definition clausesInParseOrder :: "jsstring \<Rightarrow> clause list" where
  \<comment> \<open>the array \<open>concerningClauses\<close> as the loop leaves it, before the sort\<close>
  "clausesInParseOrder aiResponse =
     (case regexExec flagI reClauses aiResponse of
        None \<Rightarrow> []
      | Some (pre, m, cs) \<Rightarrow>
          if group cs 1 = [] then [] else collectClauses (trim (group cs 1)))"

text \<open>The two section markers, and a text containing a marker in any letter case.\<close>

definition summaryMarker :: jsstring where
  "summaryMarker = js ''**1. SUMMARY:**''"

definition clausesMarker :: jsstring where
  "clausesMarker = js ''**2. CONCERNING CLAUSES:**''"

definition startsWithCI :: "jsstring \<Rightarrow> jsstring \<Rightarrow> bool" where
  "startsWithCI s p = (toLowerCase (take (length p) s) = toLowerCase p)"

fun occursCI :: "jsstring \<Rightarrow> jsstring \<Rightarrow> bool" where
  "occursCI [] p = (p = [])"
| "occursCI (c # cs) p = (startsWithCI (c # cs) p \<or> occursCI cs p)"

text \<open>The values of the two enumerations of a clause.\<close>

definition severities :: "jsstring set" where
  "severities = {js ''high'', js ''medium'', js ''low''}"

definition categories :: "jsstring set" where
  "categories = {js ''privacy'', js ''data-usage'', js ''legal-rights'', js ''service-changes'',
                 js ''user-content'', js ''general''}"

definition noSpace :: "jsstring \<Rightarrow> bool" where
  "noSpace s = list_all (\<lambda>c. \<not> isWhiteSpace c) s"

text \<open>The model response of the specification's worked example.\<close>

definition exampleResponse :: jsstring where
  "exampleResponse =
     js ''**1. SUMMARY:**'' @ [10] @ js ''* Point one'' @ [10] @ js ''* Point two'' @ [10] @
     js ''**2. CONCERNING CLAUSES:**'' @ [10] @ js ''**Broad Discretion**'' @ [10] @
     js ''This clause is vague.'' @ [10] @ js ''Severity: High'' @ [10] @
     js ''Category: Legal Rights''"

text \<open>Sample responses and blocks.\<close>

definition summaryOnly :: jsstring where
  "summaryOnly = js ''**1. SUMMARY:**'' @ [10] @ js ''Hello''"

definition untitledBlock :: jsstring where
  "untitledBlock = js ''No concerning clauses found.''"

definition labelledBlock :: jsstring where
  "labelledBlock = js ''**T** why sEVERITY:'' @ [9] @ js ''LOW'' @ [10] @ js ''category:   data'' @ [9] @ js ''USAGE''"


section \<open>Blocks and titles, read from the text\<close>

text \<open>
  The parser finds the clauses section, its blocks and their titles with regular
  expressions. This section says the same on the text itself, following the
  specification: the clauses section is what follows the first clauses marker, in any
  letter case; it is split ``at each point where a new line begins with an optional
  bullet marker followed by a bold-delimited title''; the title of a block is ``the
  text inside the first bold-delimited span at the start of the block''. The two
  readings are proved equal in the section on the admission of a block.

  \<open>untilStars\<close> is the text before the first \<open>**\<close> of a line, \<open>boldSpan\<close> the text inside
  a bold span that a text starts with. \<open>boldTitle\<close> allows a bullet marker and white
  space in front of the span; a text that starts with \<open>*\<close> is read with that \<open>*\<close> as a
  bullet first, and as the start of the span when that fails.
\<close>

fun untilStars :: "jsstring \<Rightarrow> jsstring option" where
  "untilStars [] = None"
| "untilStars (c # cs) =
     (if startsWith (c # cs) (js ''**'') then Some []
      else if isLineTerminator c then None
      else map_option ((#) c) (untilStars cs))"

definition boldSpan :: "jsstring \<Rightarrow> jsstring option" where
  "boldSpan s = (if startsWith s (js ''**'') then untilStars (drop 2 s) else None)"

definition boldTitle :: "jsstring \<Rightarrow> jsstring option" where
  "boldTitle b =
     (case (case b of [] \<Rightarrow> None
            | x # xs \<Rightarrow> if x = 42 \<or> x = 45 then boldSpan (dropWhile isWhiteSpace xs) else None) of
        Some t \<Rightarrow> Some t
      | None \<Rightarrow> boldSpan (dropWhile isWhiteSpace b))"

text \<open>
  A block starts at position \<open>q\<close> of the text \<open>t\<close> when a line begins there and what
  follows has a bold title. The text is cut at every block start after its first
  position; \<open>cutFrom t p qs\<close> are the pieces of \<open>t\<close> from \<open>p\<close> on, cut at the positions
  \<open>qs\<close>. The blocks are the pieces that are not blank.
\<close>

definition blockStartAt :: "jsstring \<Rightarrow> nat \<Rightarrow> bool" where
  "blockStartAt t q = ((q = 0 \<or> isLineTerminator (t ! (q - 1))) \<and> boldTitle (drop q t) \<noteq> None)"

definition blockStarts :: "jsstring \<Rightarrow> nat list" where
  "blockStarts t = filter (blockStartAt t) [1..<length t]"

fun cutFrom :: "jsstring \<Rightarrow> nat \<Rightarrow> nat list \<Rightarrow> jsstring list" where
  "cutFrom t p [] = [drop p t]"
| "cutFrom t p (q # qs) = take (q - p) (drop p t) # cutFrom t q qs"

definition specBlocks :: "jsstring \<Rightarrow> jsstring list" where
  "specBlocks t = filter (\<lambda>b. trim b \<noteq> []) (cutFrom t 0 (blockStarts t))"

text \<open>
  The text after the first occurrence of a marker, in any letter case, and the blocks
  of a response: those of its clauses section, trimmed.
\<close>

fun afterCI :: "jsstring \<Rightarrow> jsstring \<Rightarrow> jsstring option" where
  "afterCI [] p = (if p = [] then Some [] else None)"
| "afterCI (c # cs) p =
     (if startsWithCI (c # cs) p then Some (drop (length p) (c # cs)) else afterCI cs p)"

definition responseBlocks :: "jsstring \<Rightarrow> jsstring list" where
  "responseBlocks aiResponse =
     (case afterCI aiResponse clausesMarker of
        None \<Rightarrow> []
      | Some rest \<Rightarrow> specBlocks (trim rest))"

text \<open>
  The extracted title of a block (empty where the source has null), the condition
  under which the block is admitted, and the clause it then contributes.
\<close>

definition titleText :: "jsstring \<Rightarrow> jsstring" where
  "titleText block = (case boldTitle (trim block) of None \<Rightarrow> [] | Some t \<Rightarrow> trim t)"

definition admitted :: "jsstring \<Rightarrow> bool" where
  "admitted block = (titleText block \<noteq> [] \<and> blockText (trim block) \<noteq> [])"

definition clauseOf :: "jsstring \<Rightarrow> clause" where
  "clauseOf block =
     \<lparr>title = titleText block, text' = blockText (trim block),
      severity = blockSeverity (trim block), category = blockCategory (trim block)\<rparr>"

text \<open>
  The title pattern and the block-start pattern without their \<open>^\<close>, and what they share
  from the opening \<open>**\<close> on; the second pattern has no capture group.
\<close>

definition titleTail :: regex where
  "titleTail = Seq (Lit (js ''**'')) (Seq (Group 1 (StarLazy CDot)) (Lit (js ''**'')))"

definition startTail :: regex where
  "startTail = Seq (Lit (js ''**'')) (Seq (StarLazy CDot) (Lit (js ''**'')))"

definition titleCore :: regex where
  "titleCore = seqs [Opt (COneOf (js ''*-'')), Star CSpace, Lit (js ''**''),
                     Group 1 (StarLazy CDot), Lit (js ''**'')]"

definition startCore :: regex where
  "startCore = seqs [Opt (COneOf (js ''*-'')), Star CSpace, Lit (js ''**''),
                     StarLazy CDot, Lit (js ''**'')]"

text \<open>
  A response with four blocks: an introduction without a title, a clause, a title
  without any text, and a clause of high severity.
\<close>

definition blocksResponse :: jsstring where
  "blocksResponse =
     js ''**2. CONCERNING CLAUSES:**'' @ [10] @ js ''Intro text'' @ [10] @ js ''**A**'' @ [10] @
     js ''first'' @ [10] @ js ''* **B**'' @ [10] @ js ''**C**'' @ [10] @ js ''third'' @ [10] @
     js ''Severity: High''"

definition introBlock :: jsstring where
  "introBlock = js ''Intro text'' @ [10]"

definition blockA :: jsstring where
  "blockA = js ''**A**'' @ [10] @ js ''first'' @ [10]"

definition blockB :: jsstring where
  "blockB = js ''* **B**'' @ [10]"

definition blockC :: jsstring where
  "blockC = js ''**C**'' @ [10] @ js ''third'' @ [10] @ js ''Severity: High''"

definition clauseA :: clause where
  "clauseA = \<lparr>title = js ''A'', text' = js ''first'', severity = js ''medium'',
              category = js ''general''\<rparr>"

definition clauseC :: clause where
  "clauseC = \<lparr>title = js ''C'', text' = js ''third'', severity = js ''high'',
              category = js ''general''\<rparr>"


section \<open>Labels, read from the text\<close>

text \<open>
  The severity and the category of a block, read from the text itself, to be compared
  with the parser's regular expressions. A name is one word, or two words with one
  white-space character between them; a text starts with a name in any letter case.
  \<open>nameAt\<close> is the first listed name that a text starts with. A label is its keyword
  with the colon, any white space, and a listed name; \<open>firstAt\<close> is the value of a
  reader at the first position of the text where it has one.
\<close>

definition startsWithName :: "jsstring \<Rightarrow> jsstring \<Rightarrow> jsstring \<Rightarrow> bool" where
  "startsWithName r a b =
     (startsWithCI r a \<and>
      (b = [] \<or>
       (case drop (length a) r of [] \<Rightarrow> False
        | x # xs \<Rightarrow> isWhiteSpace x \<and> startsWithCI xs b)))"

fun nameAt :: "(jsstring \<times> jsstring) list \<Rightarrow> jsstring \<Rightarrow> (jsstring \<times> jsstring) option" where
  "nameAt [] r = None"
| "nameAt ((a, b) # names) r = (if startsWithName r a b then Some (a, b) else nameAt names r)"

definition labelAt ::
    "jsstring \<Rightarrow> (jsstring \<times> jsstring) list \<Rightarrow> jsstring \<Rightarrow> (jsstring \<times> jsstring) option" where
  "labelAt label names s =
     (if startsWithCI s label
      then nameAt names (dropWhile isWhiteSpace (drop (length label) s)) else None)"

fun firstAt :: "(jsstring \<Rightarrow> 'a option) \<Rightarrow> jsstring \<Rightarrow> 'a option" where
  "firstAt g [] = g []"
| "firstAt g (c # cs) = (case g (c # cs) of Some v \<Rightarrow> Some v | None \<Rightarrow> firstAt g cs)"

definition severityNames :: "(jsstring \<times> jsstring) list" where
  "severityNames = [(js ''High'', []), (js ''Medium'', []), (js ''Low'', [])]"

definition categoryNames :: "(jsstring \<times> jsstring) list" where
  "categoryNames =
     [(js ''Privacy'', []), (js ''Data'', js ''Usage''), (js ''Legal'', js ''Rights''),
      (js ''Service'', js ''Changes''), (js ''User'', js ''Content'')]"

text \<open>The value of a name: lower case, the two words joined by a hyphen.\<close>

definition hyphenLower :: "jsstring \<times> jsstring \<Rightarrow> jsstring" where
  "hyphenLower n =
     (case n of (a, b) \<Rightarrow> toLowerCase a @ (if b = [] then [] else js ''-'' @ toLowerCase b))"

definition specSeverity :: "jsstring \<Rightarrow> jsstring" where
  "specSeverity block =
     (case firstAt (labelAt (js ''Severity:'') severityNames) block of
        None \<Rightarrow> js ''medium''
      | Some n \<Rightarrow> hyphenLower n)"

definition specCategory :: "jsstring \<Rightarrow> jsstring" where
  "specCategory block =
     (case firstAt (labelAt (js ''Category:'') categoryNames) block of
        None \<Rightarrow> js ''general''
      | Some n \<Rightarrow> hyphenLower n)"

text \<open>
  A keyword occurs at position \<open>n\<close> of a text, in any letter case, and at no earlier
  position.
\<close>

definition firstOccurrenceCI :: "jsstring \<Rightarrow> jsstring \<Rightarrow> nat \<Rightarrow> bool" where
  "firstOccurrenceCI s p n =
     (startsWithCI (drop n s) p \<and> list_all (\<lambda>i. \<not> startsWithCI (drop i s) p) [0..<n])"

text \<open>Sample blocks with a category label.\<close>

definition privacyBlock :: jsstring where
  "privacyBlock = js ''x CATEGORY: privacy!''"

definition twoSpaceLabel :: jsstring where
  "twoSpaceLabel = js ''Category: Data  Usage''"

definition oneSpaceLabel :: jsstring where
  "oneSpaceLabel = js ''Category: Data Usage''"


section \<open>Markup back to plain text\<close>

text \<open>
  Modelled from the spec: the browser's HTML parser behind \<open>innerHTML\<close> and the
  \<open>textContent\<close> getter, which \<open>getPlainText\<close> calls and the repository does not
  contain. The specification's contract is: replace line-break markers with newline
  characters, extract the remaining text content, discarding all markup tags.
  A tag begins at a \<open><\<close> that is followed by a letter, \<open>/\<close>, \<open>!\<close> or \<open>?\<close> and runs to the
  next \<open>>\<close> (to the end of the markup when there is none); any other \<open><\<close> is text. A
  tag named \<open>br\<close> is a line break, every other tag is discarded, and every other
  code unit is text.
\<close>

definition isAsciiLetter :: "nat \<Rightarrow> bool" where
  "isAsciiLetter c = ((65 \<le> c \<and> c \<le> 90) \<or> (97 \<le> c \<and> c \<le> 122))"

fun opensTag :: "jsstring \<Rightarrow> bool" where
  \<comment> \<open>the text after a \<open><\<close> makes it the start of a tag\<close>
  "opensTag [] = False"
| "opensTag (x # xs) = (isAsciiLetter x \<or> x = 47 \<or> x = 33 \<or> x = 63)"






text \<open>The handler of the \<open>try\<close>: every tag becomes a space, white space is collapsed.\<close>

definition getPlainTextFallback :: "jsstring \<Rightarrow> jsstring" where
  \<comment> \<open>\<open>htmlString.replace(/<[^>]*>/g, ' ').replace(/\s{2,}/g, ' ').trim()\<close>\<close>
  "getPlainTextFallback htmlString =
     trim (replaceAll noFlags (Rep True 2 None CSpace) [RText [32]]
            (replaceAll noFlags (seqs [Lit [60], Star (CNoneOf [62]), Lit [62]]) [RText [32]]
               htmlString))"

text \<open>
  A text without markdown syntax: no line of it, trimmed, starts with a list marker or
  holds a match of one of the five inline patterns. A text without markup tags: no
  line of it, trimmed, holds a \<open><\<close> that begins a tag.
\<close>

definition plainLine :: "jsstring \<Rightarrow> bool" where
  "plainLine l =
     (\<not> startsWith l (js ''* '') \<and> \<not> startsWith l (js ''- '') \<and>
      \<not> regexTest noFlags reBoldStar l \<and> \<not> regexTest noFlags reBoldUnderscore l \<and>
      \<not> regexTest noFlags reItalicStar l \<and> \<not> regexTest noFlags reItalicUnderscore l \<and>
      \<not> regexTest noFlags reCode l)"

definition noMarkdownSyntax :: "jsstring \<Rightarrow> bool" where
  "noMarkdownSyntax s = list_all (\<lambda>l. plainLine (trim l)) (splitOn 10 s)"

fun noTagOpen :: "jsstring \<Rightarrow> bool" where
  "noTagOpen [] = True"
| "noTagOpen (c # cs) = (\<not> (c = 60 \<and> opensTag cs) \<and> noTagOpen cs)"

definition noMarkupTags :: "jsstring \<Rightarrow> bool" where
  "noMarkupTags s = list_all (\<lambda>l. noTagOpen (trim l)) (splitOn 10 s)"

text \<open>The lines of a text, trimmed, without the empty ones.\<close>

definition trimmedLines :: "jsstring \<Rightarrow> jsstring list" where
  "trimmedLines s = filter (\<lambda>l. l \<noteq> []) (map trim (splitOn 10 s))"

definition blankLineText :: jsstring where
  "blankLineText = js ''a'' @ [10, 10] @ js ''b''"




text \<open>The reading of ``only line-break substitution'': every newline becomes the marker.\<close>

definition lineBreakSubstitution :: "jsstring \<Rightarrow> jsstring" where
  "lineBreakSubstitution s = joinWith (js ''<br>'') (splitOn 10 s)"

definition plainExample :: jsstring where
  "plainExample = js ''  Hello world '' @ [10, 10] @ js '' second line''"


section \<open>The text extractor\<close>

text \<open>
  The document the content script reads, as a tree. An element has its local name (lower
  case, as the parser of an HTML document produces it), its id, its class list and its
  children. \<open>frameBody\<close> matters for an \<open>iframe\<close> only: the text content of the framed
  document's body when its load event arrives within the three seconds and the framed
  document can be read, \<open>None\<close> when the promise of \<open>getIframeContentWithTimeout\<close> is
  rejected (time-out, a document that cannot be read, an exception).
\<close>

datatype node =
    Text jsstring
  | Element (localName: jsstring) (elemId: jsstring) (classList: "jsstring list")
      (frameBody: "jsstring option") (childNodes: "node list")

record document =
  docTitle :: jsstring
  href :: jsstring
  documentElement :: node

definition upperUnit :: "nat \<Rightarrow> nat" where
  "upperUnit c = (if 97 \<le> c \<and> c \<le> 122 then c - 32 else c)"

text \<open>\<open>tagName\<close> of an HTML element: the local name in upper case.\<close>

fun tagName :: "node \<Rightarrow> jsstring" where
  "tagName (Text t) = []"
| "tagName (Element n i c f ch) = map upperUnit n"

fun isElement :: "node \<Rightarrow> bool" where
  "isElement (Text t) = False"
| "isElement (Element n i c f ch) = True"

fun hasName :: "jsstring \<Rightarrow> node \<Rightarrow> bool" where
  "hasName nm (Text t) = False"
| "hasName nm (Element n i c f ch) = (n = nm)"

fun textContent :: "node \<Rightarrow> jsstring" where
  "textContent (Text t) = t"
| "textContent (Element n i c f ch) = concat (map textContent ch)"

text \<open>
  The text content of a clone from which every \<open>script\<close> and \<open>style\<close> descendant has
  been removed (the node itself is never removed).
\<close>

fun strippedText :: "node \<Rightarrow> jsstring" where
  "strippedText (Text t) = t"
| "strippedText (Element n i c f ch) =
     concat (map (\<lambda>x. if hasName (js ''script'') x \<or> hasName (js ''style'') x then []
                        else strippedText x) ch)"

definition collapseSpaces :: "jsstring \<Rightarrow> jsstring" where
  \<comment> \<open>\<open>text.replace(/\s{2,}/g, ' ').trim()\<close>\<close>
  "collapseSpaces t = trim (replaceAll noFlags (Rep True 2 None CSpace) [RText [32]] t)"

definition getTextContentWithoutScriptsStyles :: "node \<Rightarrow> jsstring" where
  "getTextContentWithoutScriptsStyles nd = collapseSpaces (strippedText nd)"

text \<open>The selectors the extractor uses: \<open>#id\<close>, \<open>.class\<close>, \<open>name\<close> and \<open>name.class\<close>.\<close>

datatype selector = ById jsstring | ByClass jsstring | ByTag jsstring | ByTagClass jsstring jsstring

fun matchesSelector :: "selector \<Rightarrow> node \<Rightarrow> bool" where
  "matchesSelector sel (Text t) = False"
| "matchesSelector (ById x) (Element n i c f ch) = (i = x)"
| "matchesSelector (ByClass x) (Element n i c f ch) = (x \<in> set c)"
| "matchesSelector (ByTag x) (Element n i c f ch) = (n = x)"
| "matchesSelector (ByTagClass x y) (Element n i c f ch) = (n = x \<and> y \<in> set c)"

text \<open>
  The elements of a tree in document order, each with its parent element and the
  elements among its following siblings.
\<close>

fun located :: "node option \<Rightarrow> node list \<Rightarrow> node \<Rightarrow> (node \<times> node option \<times> node list) list"
  and locatedList :: "node option \<Rightarrow> node list \<Rightarrow> (node \<times> node option \<times> node list) list" where
  "located par sibs (Text t) = []"
| "located par sibs (Element n i c f ch) =
     (Element n i c f ch, par, filter isElement sibs) # locatedList (Some (Element n i c f ch)) ch"
| "locatedList par [] = []"
| "locatedList par (x # xs) = located par xs x @ locatedList par xs"

definition allElements :: "document \<Rightarrow> (node \<times> node option \<times> node list) list" where
  "allElements d = located None [] (documentElement d)"

definition querySelector :: "document \<Rightarrow> selector \<Rightarrow> node option" where
  \<comment> \<open>the first element in document order that matches\<close>
  "querySelector d sel = find (matchesSelector sel) (map fst (allElements d))"

definition body :: "document \<Rightarrow> node option" where
  \<comment> \<open>\<open>document.body\<close>: the first \<open>body\<close> or \<open>frameset\<close> child of the \<open>html\<close> element\<close>
  "body d =
     (if hasName (js ''html'') (documentElement d) then
        find (\<lambda>c. hasName (js ''body'') c \<or> hasName (js ''frameset'') c)
             (childNodes (documentElement d))
      else None)"

definition possibleSelectors :: "selector list" where
  "possibleSelectors =
     map (\<lambda>x. ById (js x))
       [''terms'', ''terms-and-conditions'', ''termsAndConditions'', ''terms-of-service'',
        ''termsOfService'', ''tos'', ''legal-terms'', ''legalTerms'', ''legal'',
        ''privacy-policy'', ''privacyPolicy'', ''privacy'',
        ''user-agreement'', ''userAgreement'', ''eula'', ''license-agreement''] @
     map (\<lambda>x. ByClass (js x))
       [''terms'', ''terms-and-conditions'', ''termsAndConditions'', ''terms-of-service'',
        ''termsOfService'', ''tos'', ''legal-terms'', ''legalTerms'', ''legal'',
        ''privacy-policy'', ''privacyPolicy'', ''privacy'',
        ''user-agreement'', ''userAgreement'', ''eula'', ''license-agreement''] @
     [ByTagClass (js ''article'') (js ''terms''), ByTagClass (js ''section'') (js ''terms''),
      ByTagClass (js ''div'') (js ''terms''), ByTagClass (js ''div'') (js ''legal''),
      ByTagClass (js ''article'') (js ''policy''), ByTagClass (js ''section'') (js ''policy''),
      ByTagClass (js ''div'') (js ''policy'')]"

definition commonContainers :: "selector list" where
  "commonContainers =
     [ByTag (js ''main''), ByTag (js ''article''), ById (js ''content''), ByClass (js ''content''),
      ByClass (js ''main-content''), ByClass (js ''entry-content'')]"

definition headingKeywords :: "jsstring list" where
  "headingKeywords =
     map js [''terms'', ''conditions'', ''terms of service'', ''terms of use'', ''tos'', ''legal'',
             ''agreement'', ''privacy policy'', ''policy'', ''user agreement'', ''eula'', ''license'']"

definition reLikely :: regex where
  \<comment> \<open>\<open>/terms|conditions|tos|legal|policy|agreement|privacy/i\<close>\<close>
  "reLikely =
     alts (map (\<lambda>x. Lit (js x))
       [''terms'', ''conditions'', ''tos'', ''legal'', ''policy'', ''agreement'', ''privacy''])"

definition isLikelyTCPage :: "document \<Rightarrow> bool" where
  "isLikelyTCPage d = (regexTest flagI reLikely (docTitle d) \<or> regexTest flagI reLikely (href d))"

definition reHeadingTag :: regex where
  \<comment> \<open>\<open>/^H[1-6]$/\<close>\<close>
  "reHeadingTag = seqs [Bol, Lit (js ''H''), Chr (CRange 49 54), Eol]"

text \<open>A loop that returns at the first success.\<close>

fun firstSome :: "('a \<Rightarrow> 'b option) \<Rightarrow> 'a list \<Rightarrow> 'b option" where
  "firstSome f [] = None"
| "firstSome f (x # xs) = (case f x of Some y \<Rightarrow> Some y | None \<Rightarrow> firstSome f xs)"

text \<open>Strategy 1: the body of the loop over the known selectors.\<close>

definition selectorCandidate :: "document \<Rightarrow> selector \<Rightarrow> jsstring option" where
  "selectorCandidate d sel =
     (case querySelector d sel of
        None \<Rightarrow> None
      | Some element \<Rightarrow>
          (let elementText = getTextContentWithoutScriptsStyles element
           in if 500 < length elementText then Some elementText else None))"

text \<open>
  Strategy 2. The \<open>while\<close> loop over the siblings after a heading: \<open>content\<close> and
  \<open>collectedLength\<close> are its two variables.
\<close>

fun collectSiblings :: "node list \<Rightarrow> jsstring \<Rightarrow> nat \<Rightarrow> jsstring" where
  "collectSiblings [] content collectedLength = content"
| "collectSiblings (currentElement # rest) content collectedLength =
     (if \<not> regexTest noFlags reHeadingTag (tagName currentElement) \<and> collectedLength < 100000 then
        (if tagName currentElement \<noteq> js ''SCRIPT'' \<and> tagName currentElement \<noteq> js ''STYLE'' then
           (let siblingText = getTextContentWithoutScriptsStyles currentElement
            in collectSiblings rest (content @ siblingText @ [10, 10])
                 (collectedLength + length siblingText))
         else collectSiblings rest content collectedLength)
      else content)"

definition parentCandidate :: "node \<Rightarrow> node option \<Rightarrow> jsstring option" where
  "parentCandidate heading parentElement =
     (case parentElement of
        None \<Rightarrow> None
      | Some p \<Rightarrow>
          (let parentContent = getTextContentWithoutScriptsStyles p
           in if 1000 < length parentContent \<and> length parentContent < 100000 \<and>
                 jsIncludes parentContent (textContent heading)
              then Some parentContent else None))"

definition headingCandidate :: "node \<times> node option \<times> node list \<Rightarrow> jsstring option" where
  "headingCandidate h =
     (case h of (heading, parentElement, siblings) \<Rightarrow>
        if list_ex (jsIncludes (toLowerCase (textContent heading))) headingKeywords then
          (case parentCandidate heading parentElement of
             Some parentContent \<Rightarrow> Some parentContent
           | None \<Rightarrow>
               (let content = trim (collectSiblings siblings [] 0)
                in if 500 < length content then Some content else None))
        else None)"

definition isHeading :: "node \<Rightarrow> bool" where
  "isHeading nd = list_ex (\<lambda>nm. hasName (js nm) nd) [''h1'', ''h2'', ''h3'', ''h4'', ''h5'', ''h6'']"

text \<open>Strategy 3: the body of the loop over the iframes.\<close>

definition iframeCandidate :: "bool \<Rightarrow> node \<Rightarrow> jsstring option" where
  "iframeCandidate likely iframe =
     (case frameBody iframe of
        None \<Rightarrow> None
      | Some frameText \<Rightarrow>
          (let frameContentClean = collapseSpaces (trim frameText)
           in if 1000 < length frameContentClean \<and> likely then Some frameContentClean else None))"

text \<open>Strategies 4 and 5.\<close>

definition containerCandidate :: "document \<Rightarrow> selector \<Rightarrow> jsstring option" where
  "containerCandidate d sel =
     (case querySelector d sel of
        None \<Rightarrow> None
      | Some container \<Rightarrow>
          (let containerText = getTextContentWithoutScriptsStyles container
           in if 1000 < length containerText then Some containerText else None))"

definition bodyCandidate :: "document \<Rightarrow> jsstring option" where
  "bodyCandidate d =
     (let bodyText = (case body d of None \<Rightarrow> [] | Some b \<Rightarrow> getTextContentWithoutScriptsStyles b)
      in if 1500 < length bodyText then Some bodyText else None)"

definition lowerStrategies :: "document \<Rightarrow> jsstring option" where
  \<comment> \<open>everything after the loop over the known selectors\<close>
  "lowerStrategies d =
     (case firstSome headingCandidate (filter (\<lambda>h. isHeading (fst h)) (allElements d)) of
        Some t \<Rightarrow> Some t
      | None \<Rightarrow>
          (case firstSome (iframeCandidate (isLikelyTCPage d))
                  (filter (hasName (js ''iframe'')) (map fst (allElements d))) of
             Some t \<Rightarrow> Some t
           | None \<Rightarrow>
               if isLikelyTCPage d then
                 (case firstSome (containerCandidate d) commonContainers of
                    Some t \<Rightarrow> Some t
                  | None \<Rightarrow> bodyCandidate d)
               else None))"

text \<open>\<open>extractTermsAndConditions\<close>: \<open>None\<close> is the null of the source.\<close>

definition extractTermsAndConditions :: "document \<Rightarrow> jsstring option" where
  "extractTermsAndConditions d =
     (case firstSome (selectorCandidate d) possibleSelectors of
        Some elementText \<Rightarrow> Some elementText
      | None \<Rightarrow> lowerStrategies d)"

text \<open>
  A page with two elements of class \<open>terms\<close>: the first holds five characters, the second
  six hundred. Its title and address do not look like a terms page.
\<close>

definition longText :: jsstring where
  "longText = replicate 600 97"

definition shortDiv :: node where
  "shortDiv = Element (js ''div'') [] [js ''terms''] None [Text (js ''short'')]"

definition longDiv :: node where
  "longDiv = Element (js ''div'') [] [js ''terms''] None [Text longText]"

definition termsDiv :: node where
  "termsDiv = Element (js ''div'') (js ''terms'') [] None
                [Element (js ''script'') [] [] None [Text (js ''var x;'')], Text longText]"

definition shadowedPage :: document where
  "shadowedPage =
     \<lparr>docTitle = js ''Home'', href = js ''https://example.com/'',
      documentElement =
        Element (js ''html'') [] [] None [Element (js ''body'') [] [] None [shortDiv, longDiv]]\<rparr>"

definition termsPage :: document where
  "termsPage =
     \<lparr>docTitle = js ''Home'', href = js ''https://example.com/'',
      documentElement =
        Element (js ''html'') [] [] None [Element (js ''body'') [] [] None [termsDiv]]\<rparr>"

text \<open>Inputs that reach the other strategies.\<close>

definition longerText :: jsstring where
  "longerText = replicate 1600 97"

definition policyFrame :: node where
  "policyFrame = Element (js ''iframe'') [] [] (Some longerText) []"

definition termsHeading :: node where
  "termsHeading = Element (js ''h2'') [] [] None [Text (js ''Terms'')]"

definition headedSection :: node where
  "headedSection = Element (js ''section'') [] [] None [termsHeading, Text longerText]"

definition longParagraph :: node where
  "longParagraph = Element (js ''p'') [] [] None [Text longText]"

definition articlePage :: document where
  "articlePage =
     \<lparr>docTitle = js ''Privacy policy'', href = js ''https://example.com/'',
      documentElement =
        Element (js ''html'') [] [] None
          [Element (js ''body'') [] [] None [Element (js ''main'') [] [] None [Text longerText]]]\<rparr>"


section \<open>The reply of the model API\<close>

text \<open>
  A JSON value as \<open>response.json()\<close> delivers it. A number is kept by its value; the
  program only asks whether it is zero.
\<close>

datatype json =
    JNull
  | JBool bool
  | JNumber real
  | JString jsstring
  | JArray "json list"
  | JObject "(jsstring \<times> json) list"

text \<open>
  Reading a property, \<open>None\<close> for undefined. The program reads the names
  \<open>candidates\<close>, \<open>content\<close>, \<open>parts\<close>, \<open>text\<close> and the index 0 only: an object has what
  its members give it (the last of a repeated name), an array and a string have the
  index and none of the names.
\<close>

fun getProp :: "json \<Rightarrow> jsstring \<Rightarrow> json option" where
  "getProp (JObject members) k = map_of (rev members) k"
| "getProp (JArray xs) k =
     (if k = js ''0'' then (case xs of [] \<Rightarrow> None | x # _ \<Rightarrow> Some x) else None)"
| "getProp (JString s) k =
     (if k = js ''0'' then (case s of [] \<Rightarrow> None | c # _ \<Rightarrow> Some (JString [c])) else None)"
| "getProp v k = None"

text \<open>Optional chaining \<open>x?.k\<close>: undefined and null give undefined.\<close>

fun optGet :: "json option \<Rightarrow> jsstring \<Rightarrow> json option" where
  "optGet None k = None"
| "optGet (Some JNull) k = None"
| "optGet (Some v) k = getProp v k"

definition replyText :: "json \<Rightarrow> json option" where
  \<comment> \<open>\<open>data?.candidates?.[0]?.content?.parts?.[0]?.text\<close>\<close>
  "replyText data =
     optGet (optGet (optGet (optGet (optGet (optGet (Some data) (js ''candidates'')) (js ''0''))
       (js ''content'')) (js ''parts'')) (js ''0'')) (js ''text'')"

fun truthy :: "json \<Rightarrow> bool" where
  "truthy JNull = False"
| "truthy (JBool b) = b"
| "truthy (JNumber x) = (x \<noteq> 0)"
| "truthy (JString s) = (s \<noteq> [])"
| "truthy (JArray xs) = True"
| "truthy (JObject members) = True"

text \<open>What \<open>processWithAI\<close> throws.\<close>

datatype failure =
    ApiKeyNotFound                       \<comment> \<open>``API key not found. Please set it in options.''\<close>
  | FetchFailed                          \<comment> \<open>\<open>fetch\<close> rejected\<close>
  | RequestFailed nat "jsstring option"  \<comment> \<open>the status and the error body, if it could be read\<close>
  | InvalidJson                          \<comment> \<open>\<open>response.json()\<close> rejected\<close>
  | UnexpectedFormat                     \<comment> \<open>``Received an unexpected response format ...''\<close>
  | NotAFunction                         \<comment> \<open>the TypeError of \<open>aiResponse.substring\<close> on a value that is no string\<close>

text \<open>
  The part of \<open>processWithAI\<close> from the parsed reply on: the check of the reply's shape,
  the logging call \<open>aiResponse.substring(0, 200)\<close>, which throws on a value that is not
  a string, and the parser.
\<close>

definition handleData :: "json \<Rightarrow> failure + analysisResult" where
  "handleData data =
     (case replyText data of
        None \<Rightarrow> Inl UnexpectedFormat
      | Some v \<Rightarrow>
          if \<not> truthy v then Inl UnexpectedFormat
          else (case v of
                  JString aiResponse \<Rightarrow> Inr (parseAIResponse aiResponse)
                | _ \<Rightarrow> Inl NotAFunction))"

text \<open>
  The HTTP response as the function reads it: \<open>bodyText\<close> and \<open>bodyJson\<close> are what
  \<open>response.text()\<close> and \<open>response.json()\<close> resolve to, \<open>None\<close> when they reject.
\<close>

record httpResponse =
  ok :: bool
  status :: nat
  bodyText :: "jsstring option"
  bodyJson :: "json option"

text \<open>
  \<open>processWithAI\<close>, given the stored API key (\<open>None\<close> when there is none) and the
  outcome of \<open>fetch\<close> (\<open>None\<close> when it rejects). The request carries the prompt; the
  reply is an input of the model.
\<close>

definition processWithAI :: "jsstring option \<Rightarrow> httpResponse option \<Rightarrow> failure + analysisResult" where
  "processWithAI apiKey fetched =
     (case apiKey of
        None \<Rightarrow> Inl ApiKeyNotFound
      | Some k \<Rightarrow>
          if k = [] then Inl ApiKeyNotFound
          else (case fetched of
                  None \<Rightarrow> Inl FetchFailed
                | Some response \<Rightarrow>
                    if \<not> ok response then Inl (RequestFailed (status response) (bodyText response))
                    else (case bodyJson response of
                            None \<Rightarrow> Inl InvalidJson
                          | Some data \<Rightarrow> handleData data)))"

text \<open>A reply of the expected shape around a value.\<close>

definition replyWith :: "json \<Rightarrow> json" where
  "replyWith v =
     JObject [(js ''candidates'',
       JArray [JObject [(js ''content'',
         JObject [(js ''parts'', JArray [JObject [(js ''text'', v)]])])]])]"


section \<open>The presentation sort\<close>

lemma js_high_facts: "js ''medium'' \<noteq> js ''high''" "js ''high'' \<noteq> []"
  by (simp_all add: js_def)

lemma orMedium_high: "(orMedium (severity c) = js ''high'') = isHigh c"
  using js_high_facts by (auto simp: orMedium_def isHigh_def)

lemma compareSeverity_cases:
  "compareSeverity a b =
     (if isHigh a \<and> \<not> isHigh b then -1 else if \<not> isHigh a \<and> isHigh b then 1 else 0)"
  by (simp add: compareSeverity_def Let_def orMedium_high)

lemma insert_low: "\<not> isHigh x \<Longrightarrow> insertSorted compareSeverity x ys = ys @ [x]"
  by (induction ys) (simp_all add: compareSeverity_cases)

lemma insert_high_front:
  "isHigh x \<Longrightarrow> list_all (\<lambda>c. \<not> isHigh c) ns \<Longrightarrow> insertSorted compareSeverity x ns = x # ns"
  by (cases ns) (simp_all add: compareSeverity_cases)

lemma insert_high:
  "isHigh x \<Longrightarrow> list_all isHigh hs \<Longrightarrow> list_all (\<lambda>c. \<not> isHigh c) ns \<Longrightarrow>
   insertSorted compareSeverity x (hs @ ns) = hs @ x # ns"
  by (induction hs) (simp_all add: compareSeverity_cases insert_high_front)

lemma sortWith_partition:
  "sortWith compareSeverity (filter isHigh pre @ filter (\<lambda>c. \<not> isHigh c) pre) xs =
   filter isHigh (pre @ xs) @ filter (\<lambda>c. \<not> isHigh c) (pre @ xs)"
proof (induction xs arbitrary: pre)
  case Nil
  then show ?case by simp
next
  case (Cons x xs)
  have step: "insertSorted compareSeverity x (filter isHigh pre @ filter (\<lambda>c. \<not> isHigh c) pre) =
      filter isHigh (pre @ [x]) @ filter (\<lambda>c. \<not> isHigh c) (pre @ [x])"
  proof (cases "isHigh x")
    case True
    then show ?thesis
      by (simp add: insert_high list_all_iff)
  next
    case False
    then show ?thesis by (simp add: insert_low)
  qed
  show ?case
    using Cons.IH [of "pre @ [x]"] by (simp add: step)
qed

lemma jsSort_partition:
  "jsSort compareSeverity cs = filter isHigh cs @ filter (\<lambda>c. \<not> isHigh c) cs"
  using sortWith_partition [of "[]" cs] by (simp add: jsSort_def)

lemma short_partition:
  "length cs \<le> 1 \<Longrightarrow> filter isHigh cs @ filter (\<lambda>c. \<not> isHigh c) cs = cs"
  by (cases cs) auto

lemma sortClauses_partition:
  "sortClauses cs = filter isHigh cs @ filter (\<lambda>c. \<not> isHigh c) cs"
  by (simp add: sortClauses_def jsSort_partition short_partition)

lemma parseClauses_sorted: "parseClauses s = sortClauses (clausesInParseOrder s)"
  by (simp add: parseClauses_def clausesInParseOrder_def sortClauses_def
      split: option.splits prod.splits)

text \<open>
  Claim C2. The presentation sort turns any clause list into its clauses of severity
  \<open>high\<close>, in their parse order, followed by its other clauses, in their parse order:
  every \<open>high\<close> clause stands before every other one and neither group is reordered
  (medium and low stay as they were parsed). The list the parser returns is the sorted
  list of the clauses it collected.
\<close>

theorem presentation_sort_high_first:
  "sortClauses cs = filter isHigh cs @ filter (\<lambda>c. \<not> isHigh c) cs \<and>
   concerningClauses (parseAIResponse s) =
     filter isHigh (clausesInParseOrder s) @ filter (\<lambda>c. \<not> isHigh c) (clausesInParseOrder s)"
  by (simp add: parseAIResponse_def parseClauses_sorted sortClauses_partition)


section \<open>Facts about the matcher\<close>

lemma canonicalize_lower:
  "canonicalize f x = canonicalize f c \<Longrightarrow> lowerUnit x = lowerUnit c"
  unfolding canonicalize_def lowerUnit_def
  by (cases "ignoreCase f"; cases "97 \<le> x \<and> x \<le> 122"; cases "97 \<le> c \<and> c \<le> 122") (simp_all, arith+)

lemma litAt_startsWithCI: "litAt f l rest \<Longrightarrow> startsWithCI rest l"
proof (induction f l rest rule: litAt.induct)
  case (1 f rest)
  then show ?case by (simp add: startsWithCI_def)
next
  case (2 f c l)
  then show ?case by simp
next
  case (3 f c l x rest)
  from "3.prems" have eq: "canonicalize f x = canonicalize f c" and tl: "litAt f l rest"
    by (simp_all split: if_splits)
  from "3.IH" [OF eq tl] canonicalize_lower [OF eq]
  show ?case by (simp add: startsWithCI_def toLowerCase_def)
qed

lemma litAt_length: "litAt f l rest \<Longrightarrow> length l \<le> length rest"
  by (induction f l rest rule: litAt.induct) (auto split: if_splits)

lemma matchHere_Lit_first:
  "\<not> litAt f l rest \<Longrightarrow> matchHere f (Seq (Lit l) r) bef rest = None"
  by (simp add: matchHere_def)

lemma searchFrom_no_occurrence:
  "\<not> occursCI rest l \<Longrightarrow> searchFrom f (Seq (Lit l) r) bef rest = None"
proof (induction rest arbitrary: bef)
  case Nil
  then have "\<not> litAt f l []" by (cases l) auto
  then show ?case by (simp add: matchHere_Lit_first)
next
  case (Cons c rest)
  then have "\<not> litAt f l (c # rest)" using litAt_startsWithCI by auto
  with Cons show ?case by (simp add: matchHere_Lit_first)
qed

lemma no_clauses_marker:
  "\<not> occursCI s clausesMarker \<Longrightarrow> parseClauses s = []"
  by (simp add: parseClauses_def regexExec_def reClauses_def clausesMarker_def searchFrom_no_occurrence)

lemma no_summary_marker:
  "\<not> occursCI s summaryMarker \<Longrightarrow> parseSummary s = defaultSummary"
  by (simp add: parseSummary_def regexExec_def reSummary_def summaryMarker_def searchFrom_no_occurrence)

lemma repGreedy_Some:
  "repGreedy k mn mx bef rest c = Some x \<Longrightarrow> \<exists>b r. c b r = Some x"
  by (induction k mn mx bef rest c rule: repGreedy.induct)
     (auto split: if_splits option.splits)

lemma repLazy_Some:
  "repLazy k mn mx bef rest c = Some x \<Longrightarrow> \<exists>b r. c b r = Some x"
  by (induction k mn mx bef rest c rule: repLazy.induct)
     (auto split: if_splits option.splits)

lemma searchFrom_Some:
  "searchFrom f r bef rest = Some (pre, m, cs) \<Longrightarrow> \<exists>b t. matchHere f r b t = Some (m, cs)"
  by (induction rest arbitrary: bef) (auto split: option.splits)

lemma take_consumed: "n \<le> length rest \<Longrightarrow> take (length rest - length (drop n rest)) rest = take n rest"
  by simp

lemma toLowerCase_litAt: "litAt f w rest \<Longrightarrow> toLowerCase (take (length w) rest) = toLowerCase w"
  using litAt_startsWithCI [of f w rest] by (simp add: startsWithCI_def)

lemma severityWords_capture:
  assumes "matchC f severityWords bef rest cs0 (\<lambda>b r cs. Some (b, r, cs)) = Some (b', r', cs)"
  shows "toLowerCase (group cs 1) \<in> severities"
proof -
  from assms consider
      (h) "litAt f (js ''High'') rest" "cs = (1, take (length (js ''High'')) rest) # cs0"
    | (m) "litAt f (js ''Medium'') rest" "cs = (1, take (length (js ''Medium'')) rest) # cs0"
    | (l) "litAt f (js ''Low'') rest" "cs = (1, take (length (js ''Low'')) rest) # cs0"
    by (auto simp: severityWords_def litAt_length split: if_splits)
  then show ?thesis
  proof cases
    case h
    then show ?thesis using toLowerCase_litAt [OF h(1)] by (simp add: group_def severities_def) (simp add: js_def toLowerCase_def lowerUnit_def)
  next
    case m
    then show ?thesis using toLowerCase_litAt [OF m(1)] by (simp add: group_def severities_def) (simp add: js_def toLowerCase_def lowerUnit_def)
  next
    case l
    then show ?thesis using toLowerCase_litAt [OF l(1)] by (simp add: group_def severities_def) (simp add: js_def toLowerCase_def lowerUnit_def)
  qed
qed

lemma reSeverity_capture:
  assumes "matchHere flagI reSeverity bef rest = Some (m, cs)"
  shows "toLowerCase (group cs 1) \<in> severities"
proof -
  from assms obtain b r where
    "matchC flagI reSeverity bef rest [] (\<lambda>b r cs. Some (b, r, cs)) = Some (b, r, cs)"
    by (auto simp: matchHere_def split: option.splits)
  then obtain b1 r1 where "matchC flagI severityWords b1 r1 [] (\<lambda>b r cs. Some (b, r, cs)) = Some (b, r, cs)"
    by (auto simp: reSeverity_def split: if_splits dest!: repGreedy_Some)
  then show ?thesis by (rule severityWords_capture)
qed

lemma blockSeverity_valid: "blockSeverity b \<in> severities"
proof (cases "regexExec flagI reSeverity b")
  case None
  then show ?thesis by (simp add: blockSeverity_def severities_def)
next
  case (Some x)
  obtain pre m cs where x: "x = (pre, m, cs)" by (cases x)
  with Some obtain b' t where "matchHere flagI reSeverity b' t = Some (m, cs)"
    unfolding regexExec_def by (blast dest: searchFrom_Some)
  from reSeverity_capture [OF this] Some x show ?thesis
    by (simp add: blockSeverity_def)
qed

lemma plusSpace_none: "\<not> isWhiteSpace x \<Longrightarrow> matchHere noFlags (Plus CSpace) bef (x # xs) = None"
  by (simp add: matchHere_def)

lemma plusSpace_end: "matchHere noFlags (Plus CSpace) bef [] = None"
  by (simp add: matchHere_def)

lemma plusSpace_one:
  "isWhiteSpace w \<Longrightarrow> \<not> isWhiteSpace u \<Longrightarrow>
   matchHere noFlags (Plus CSpace) bef (w # u # us) = Some ([w], [])"
  by (simp add: matchHere_def)

lemma dashes_noSpace:
  "noSpace xs \<Longrightarrow>
   replaceAllFrom noFlags (Plus CSpace) tmpl bef (xs @ ys) 0 =
   xs @ replaceAllFrom noFlags (Plus CSpace) tmpl (rev xs @ bef) ys 0"
  by (induction xs arbitrary: bef) (simp_all add: noSpace_def plusSpace_none)

lemma dashes_word: "noSpace xs \<Longrightarrow> replaceAll noFlags (Plus CSpace) tmpl xs = xs"
  using dashes_noSpace [where xs = xs and tmpl = tmpl and bef = "[]" and ys = "[]"]
  by (simp add: replaceAll_def plusSpace_end)

lemma dashes_two_words:
  assumes "noSpace d" "isWhiteSpace w" "noSpace u" "u \<noteq> []"
  shows "replaceAll noFlags (Plus CSpace) [RText (js ''-'')] (d @ w # u) = d @ js ''-'' @ u"
proof -
  obtain u1 us where u: "u = u1 # us" using assms(4) by (cases u) auto
  with assms(3) have u1: "\<not> isWhiteSpace u1" by (simp add: noSpace_def)
  have tail: "replaceAllFrom noFlags (Plus CSpace) [RText (js ''-'')] (w # rev d) (u @ []) 0 = u"
    using dashes_noSpace [OF assms(3), where tmpl = "[RText (js ''-'')]" and bef = "w # rev d" and ys = "[]"]
    by (simp add: plusSpace_end)
  have "replaceAllFrom noFlags (Plus CSpace) [RText (js ''-'')] (rev d) (w # u) 0 = js ''-'' @ u"
    using tail by (simp add: u plusSpace_one [OF assms(2) u1] subst_def)
  then show ?thesis
    using dashes_noSpace [OF assms(1), where tmpl = "[RText (js ''-'')]" and bef = "[]" and ys = "w # u"]
    by (simp add: replaceAll_def)
qed

lemma lower_noSpace:
  assumes "toLowerCase t = toLowerCase w" "noSpace (toLowerCase w)"
  shows "noSpace t"
proof -
  have ws: "\<And>c. isWhiteSpace c \<Longrightarrow> lowerUnit c = c"
    by (auto simp: isWhiteSpace_def lowerUnit_def)
  have "\<not> isWhiteSpace c" if "c \<in> set t" for c
  proof
    assume c: "isWhiteSpace c"
    from that have "lowerUnit c \<in> set (toLowerCase t)" by (simp add: toLowerCase_def)
    with assms have "\<not> isWhiteSpace (lowerUnit c)" by (simp add: noSpace_def list_all_iff)
    with ws [OF c] c show False by simp
  qed
  then show ?thesis by (simp add: noSpace_def list_all_iff)
qed

lemma alt_Some:
  "matchC f (Alt r1 r2) bef rest cs c = Some x \<Longrightarrow>
   matchC f r1 bef rest cs c = Some x \<or> matchC f r2 bef rest cs c = Some x"
  by (auto split: option.splits)

lemma take_two_words_aux:
  "lb \<le> length u \<Longrightarrow>
   take (length (A @ w # u) - length (drop lb u)) (A @ w # u) = A @ w # take lb u"
  by simp

lemma take_two_words:
  assumes "la \<le> length rest" "drop la rest = w # u" "lb \<le> length u"
  shows "take (length rest - length (drop lb u)) rest = take la rest @ w # take lb u"
proof -
  have rest: "take la rest @ w # u = rest"
    using assms(2) by (metis append_take_drop_id)
  from take_two_words_aux [OF assms(3), of "take la rest" w] show ?thesis
    unfolding rest .
qed

lemma one_word_capture:
  assumes "matchC f (Lit a) bef rest cs0
             (\<lambda>b r cs'. Some (b, r, (n, take (length rest - length r) rest) # cs')) = Some (b', r', cs)"
  shows "\<exists>t. cs = (n, t) # cs0 \<and> toLowerCase t = toLowerCase a"
proof -
  from assms have a: "litAt f a rest"
    by (simp split: if_splits)
  with assms have "cs = (n, take (length rest - length (drop (length a) rest)) rest) # cs0"
    by auto
  with litAt_length [OF a] have "cs = (n, take (length a) rest) # cs0"
    by simp
  with toLowerCase_litAt [OF a] show ?thesis by blast
qed

lemma two_words_capture:
  assumes "matchC f (Seq (Lit a) (Seq (Chr CSpace) (Lit b))) bef rest cs0
             (\<lambda>b r cs'. Some (b, r, (n, take (length rest - length r) rest) # cs')) = Some (b', r', cs)"
  shows "\<exists>d w u. cs = (n, d @ w # u) # cs0 \<and> toLowerCase d = toLowerCase a \<and> isWhiteSpace w \<and>
           toLowerCase u = toLowerCase b"
proof -
  from assms have a: "litAt f a rest"
    by (simp split: if_splits)
  with assms obtain w u where wu: "drop (length a) rest = w # u" and w: "isWhiteSpace w"
    and b: "litAt f b u" and cs: "cs = (n, take (length rest - length (drop (length b) u)) rest) # cs0"
    by (auto split: if_splits list.splits)
  have "take (length rest - length (drop (length b) u)) rest =
        take (length a) rest @ w # take (length b) u"
    using litAt_length [OF a] wu litAt_length [OF b] by (rule take_two_words)
  with cs w toLowerCase_litAt [OF a] toLowerCase_litAt [OF b] show ?thesis by blast
qed

lemma normalize_one_word:
  assumes "toLowerCase t = toLowerCase a" "noSpace (toLowerCase a)"
  shows "normalizeCategory t = toLowerCase a"
  using lower_noSpace [OF assms] assms(1) by (simp add: normalizeCategory_def dashes_word)

lemma normalize_two_words:
  assumes "toLowerCase d = toLowerCase a" "noSpace (toLowerCase a)" "isWhiteSpace w"
    "toLowerCase u = toLowerCase b" "noSpace (toLowerCase b)" "b \<noteq> []"
  shows "normalizeCategory (d @ w # u) = toLowerCase a @ js ''-'' @ toLowerCase b"
proof -
  have "u \<noteq> []" using assms(4,6) by (auto simp: toLowerCase_def)
  then have "replaceAll noFlags (Plus CSpace) [RText (js ''-'')] (d @ w # u) = d @ js ''-'' @ u"
    using lower_noSpace [OF assms(1,2)] lower_noSpace [OF assms(4,5)] assms(3)
    by (simp add: dashes_two_words)
  then show ?thesis using assms(1,4)
    by (simp add: normalizeCategory_def toLowerCase_def) (simp add: js_def lowerUnit_def)
qed

lemma noSpace_evals:
  "noSpace (toLowerCase (js ''Privacy''))"
  "noSpace (toLowerCase (js ''Data''))" "noSpace (toLowerCase (js ''Usage''))"
  "noSpace (toLowerCase (js ''Legal''))" "noSpace (toLowerCase (js ''Rights''))"
  "noSpace (toLowerCase (js ''Service''))" "noSpace (toLowerCase (js ''Changes''))"
  "noSpace (toLowerCase (js ''User''))" "noSpace (toLowerCase (js ''Content''))"
  by (simp_all add: js_def toLowerCase_def lowerUnit_def noSpace_def isWhiteSpace_def)

lemma word_evals:
  "toLowerCase (js ''Privacy'') = js ''privacy''"
  "toLowerCase (js ''Data'') @ js ''-'' @ toLowerCase (js ''Usage'') = js ''data-usage''"
  "toLowerCase (js ''Legal'') @ js ''-'' @ toLowerCase (js ''Rights'') = js ''legal-rights''"
  "toLowerCase (js ''Service'') @ js ''-'' @ toLowerCase (js ''Changes'') = js ''service-changes''"
  "toLowerCase (js ''User'') @ js ''-'' @ toLowerCase (js ''Content'') = js ''user-content''"
  by (simp_all add: js_def toLowerCase_def lowerUnit_def)

lemma word_nonempty:
  "js ''Usage'' \<noteq> []" "js ''Rights'' \<noteq> []" "js ''Changes'' \<noteq> []" "js ''Content'' \<noteq> []"
  by (simp_all add: js_def)

lemma categoryWords_capture:
  assumes "matchC f categoryWords bef rest cs0 (\<lambda>b r cs. Some (b, r, cs)) = Some (b', r', cs)"
  shows "normalizeCategory (group cs 1) \<in> categories"
proof -
  let ?k = "\<lambda>b r cs'. Some (b, r, (1, take (length rest - length r) rest) # cs')"
  from assms consider
      (p) "matchC f (Lit (js ''Privacy'')) bef rest cs0 ?k = Some (b', r', cs)"
    | (d) "matchC f (Seq (Lit (js ''Data'')) (Seq (Chr CSpace) (Lit (js ''Usage'')))) bef rest cs0 ?k = Some (b', r', cs)"
    | (l) "matchC f (Seq (Lit (js ''Legal'')) (Seq (Chr CSpace) (Lit (js ''Rights'')))) bef rest cs0 ?k = Some (b', r', cs)"
    | (s) "matchC f (Seq (Lit (js ''Service'')) (Seq (Chr CSpace) (Lit (js ''Changes'')))) bef rest cs0 ?k = Some (b', r', cs)"
    | (u) "matchC f (Seq (Lit (js ''User'')) (Seq (Chr CSpace) (Lit (js ''Content'')))) bef rest cs0 ?k = Some (b', r', cs)"
    unfolding categoryWords_def alts.simps seqs.simps matchC.simps(6)
    by (blast dest: alt_Some)
  then show ?thesis
  proof cases
    case p
    from one_word_capture [OF p] obtain t where cs: "cs = (1, t) # cs0"
      and t: "toLowerCase t = toLowerCase (js ''Privacy'')"
      by blast
    from normalize_one_word [OF t noSpace_evals(1)] cs show ?thesis
      by (simp add: group_def word_evals categories_def)
  next
    case d
    from two_words_capture [OF d] obtain x w y where cs: "cs = (1, x @ w # y) # cs0"
      and x: "toLowerCase x = toLowerCase (js ''Data'')" and w: "isWhiteSpace w"
      and y: "toLowerCase y = toLowerCase (js ''Usage'')"
      by blast
    from normalize_two_words [OF x noSpace_evals(2) w y noSpace_evals(3) word_nonempty(1)] cs
    show ?thesis by (simp add: group_def word_evals categories_def)
  next
    case l
    from two_words_capture [OF l] obtain x w y where cs: "cs = (1, x @ w # y) # cs0"
      and x: "toLowerCase x = toLowerCase (js ''Legal'')" and w: "isWhiteSpace w"
      and y: "toLowerCase y = toLowerCase (js ''Rights'')"
      by blast
    from normalize_two_words [OF x noSpace_evals(4) w y noSpace_evals(5) word_nonempty(2)] cs
    show ?thesis by (simp add: group_def word_evals categories_def)
  next
    case s
    from two_words_capture [OF s] obtain x w y where cs: "cs = (1, x @ w # y) # cs0"
      and x: "toLowerCase x = toLowerCase (js ''Service'')" and w: "isWhiteSpace w"
      and y: "toLowerCase y = toLowerCase (js ''Changes'')"
      by blast
    from normalize_two_words [OF x noSpace_evals(6) w y noSpace_evals(7) word_nonempty(3)] cs
    show ?thesis by (simp add: group_def word_evals categories_def)
  next
    case u
    from two_words_capture [OF u] obtain x w y where cs: "cs = (1, x @ w # y) # cs0"
      and x: "toLowerCase x = toLowerCase (js ''User'')" and w: "isWhiteSpace w"
      and y: "toLowerCase y = toLowerCase (js ''Content'')"
      by blast
    from normalize_two_words [OF x noSpace_evals(8) w y noSpace_evals(9) word_nonempty(4)] cs
    show ?thesis by (simp add: group_def word_evals categories_def)
  qed
qed

lemma reCategory_capture:
  assumes "matchHere flagI reCategory bef rest = Some (m, cs)"
  shows "normalizeCategory (group cs 1) \<in> categories"
proof -
  from assms obtain b r where
    "matchC flagI reCategory bef rest [] (\<lambda>b r cs. Some (b, r, cs)) = Some (b, r, cs)"
    by (auto simp: matchHere_def split: option.splits)
  then obtain b1 r1 where "matchC flagI categoryWords b1 r1 [] (\<lambda>b r cs. Some (b, r, cs)) = Some (b, r, cs)"
    by (auto simp: reCategory_def split: if_splits dest!: repGreedy_Some)
  then show ?thesis by (rule categoryWords_capture)
qed

lemma blockCategory_valid: "blockCategory b \<in> categories"
proof (cases "regexExec flagI reCategory b")
  case None
  then show ?thesis by (simp add: blockCategory_def categories_def)
next
  case (Some x)
  obtain pre m cs where x: "x = (pre, m, cs)" by (cases x)
  with Some obtain b' t where "matchHere flagI reCategory b' t = Some (m, cs)"
    unfolding regexExec_def by (blast dest: searchFrom_Some)
  from reCategory_capture [OF this] Some x show ?thesis
    by (simp add: blockCategory_def)
qed

lemmas reDefs = reBoldStar_def reBoldUnderscore_def reItalicStar_def reItalicUnderscore_def reCode_def
  reSummary_def reBullet_def reBulletMarker_def reClauses_def reBlockStart_def reTitle_def severityWords_def
  categoryWords_def reSeverity_def reCategory_def reSeverityLine_def reCategoryLine_def
lemmas flagDefs = noFlags_def flagI_def flagM_def flagIM_def
lemmas evalDefs = js_def trim_def isWhiteSpace_def isLineTerminator_def canonicalize_def matchHere_def
  regexExec_def replaceAll_def matchAll_def splitRegex_def replaceFirst_def subst_def group_def wrapIn_def
  startsWith_def toLowerCase_def lowerUnit_def regexTest_def
lemmas parseDefs = convertMarkdownToHtml_def processLine_def inlineMarkdown_def stripListMarker_def
  parseSummary_def parseClauses_def collectClauses_def sortClauses_def jsSort_def
  compareSeverity_def orMedium_def validBlocks_def parseBlock_def blockText_def afterTitle_def
  blockCategory_def normalizeCategory_def blockSeverity_def blockTitle_def blockTitleMatch_def
  asParagraph_def formatBullets_def defaultSummary_def List.map_filter_def

lemma repGreedy_suffix:
  "repGreedy k mn mx bef rest c = Some res \<Longrightarrow> \<exists>b r. c b r = Some res \<and> set r \<subseteq> set rest"
proof (induction rest arbitrary: mn mx bef)
  case Nil
  then show ?case by (auto split: if_splits)
next
  case (Cons y ys)
  consider (deeper) "repGreedy k (mn - 1) (decMax mx) (y # bef) ys c = Some res"
    | (here) "c bef (y # ys) = Some res"
    using Cons.prems by (auto split: if_splits option.splits)
  then show ?case
  proof cases
    case deeper
    from Cons.IH [OF this] show ?thesis by auto
  next
    case here
    then show ?thesis by blast
  qed
qed

lemma litAt_member: "litAt f (c # l) rest \<Longrightarrow> ignoreCase f = False \<Longrightarrow> c \<in> set rest"
  by (cases rest) (auto simp: canonicalize_def split: if_splits)

lemma reTitle_needs_star:
  assumes "42 \<notin> set rest"
  shows "matchHere noFlags reTitle bef rest = None"
proof (rule ccontr)
  assume "matchHere noFlags reTitle bef rest \<noteq> None"
  then obtain x where x: "matchC noFlags reTitle bef rest [] (\<lambda>b r cs. Some (b, r, cs)) = Some x"
    by (auto simp: matchHere_def split: option.splits)
  let ?tail = "Seq (Lit (js ''**'')) (Seq (Group 1 (StarLazy CDot)) (Lit (js ''**'')))"
  from x have "repGreedy (COneOf (js ''*-'')) 0 (Some (Suc 0)) bef rest
      (\<lambda>b r. repGreedy CSpace 0 None b r (\<lambda>b' r'. matchC noFlags ?tail b' r' [] (\<lambda>b r cs. Some (b, r, cs)))) = Some x"
    by (cases bef) (simp_all add: reTitle_def noFlags_def split: if_splits)
  then obtain b1 r1 where r1: "set r1 \<subseteq> set rest"
    and "repGreedy CSpace 0 None b1 r1 (\<lambda>b' r'. matchC noFlags ?tail b' r' [] (\<lambda>b r cs. Some (b, r, cs))) = Some x"
    by (blast dest: repGreedy_suffix)
  then obtain b2 r2 where r2: "set r2 \<subseteq> set r1"
    and "matchC noFlags ?tail b2 r2 [] (\<lambda>b r cs. Some (b, r, cs)) = Some x"
    by (blast dest: repGreedy_suffix)
  then have "litAt noFlags (js ''**'') r2" by (simp split: if_splits)
  then have "42 \<in> set r2" using litAt_member [of noFlags 42 "[42]" r2] by (simp add: js_def noFlags_def)
  with r1 r2 assms show False by blast
qed

lemma searchFrom_None_all:
  "(\<And>b t. set t \<subseteq> set rest \<Longrightarrow> matchHere f r b t = None) \<Longrightarrow> searchFrom f r bef rest = None"
proof (induction rest arbitrary: bef)
  case Nil
  then show ?case by simp
next
  case (Cons c rest)
  have "matchHere f r bef (c # rest) = None" using Cons.prems by simp
  moreover have "searchFrom f r (c # bef) rest = None"
    using Cons.prems by (intro Cons.IH) auto
  ultimately show ?case by simp
qed

lemma set_trim: "set (trim s) \<subseteq> set s"
proof -
  have "set (dropWhile isWhiteSpace (rev (dropWhile isWhiteSpace s))) \<subseteq> set (dropWhile isWhiteSpace s)"
    using set_dropWhileD by fastforce
  also have "\<dots> \<subseteq> set s" using set_dropWhileD by fastforce
  finally show ?thesis by (simp add: trim_def)
qed

lemma no_star_no_title: "42 \<notin> set t \<Longrightarrow> blockTitleMatch t = None"
  unfolding blockTitleMatch_def regexExec_def
  by (rule searchFrom_None_all) (auto intro: reTitle_needs_star)

lemma blockTitle_empty: "blockTitle [] = None"
  by (simp add: blockTitle_def blockTitleMatch_def regexExec_def matchHere_def reTitle_def js_def)

lemma parseBlock_untitled: "blockTitle (trim block) = None \<Longrightarrow> parseBlock block = None"
  by (simp add: parseBlock_def Let_def)

lemma parseBlock_titled:
  "blockTitle (trim block) = Some t \<Longrightarrow>
   parseBlock block =
     (if t \<noteq> [] \<and> blockText (trim block) \<noteq> [] then
        Some \<lparr>title = t, text' = blockText (trim block), severity = blockSeverity (trim block),
              category = blockCategory (trim block)\<rparr>
      else None)"
  using blockTitle_empty by (cases "trim block = []") (simp_all add: parseBlock_def Let_def)


text \<open>
  The title pattern and the block-start pattern, followed through the matcher: white
  space is skipped greedily, the lazy star stops at the first \<open>**\<close> of the line.
\<close>

lemma litAt_exact: "\<not> ignoreCase f \<Longrightarrow> litAt f l r = startsWith r l"
  by (induction f l r rule: litAt.induct) (auto simp: startsWith_def canonicalize_def)

lemma spaces_skip:
  assumes "\<And>b x xs. isWhiteSpace x \<Longrightarrow> c b (x # xs) = None"
  shows "repGreedy CSpace 0 None bef rest c =
         c (rev (takeWhile isWhiteSpace rest) @ bef) (dropWhile isWhiteSpace rest)"
proof (induction rest arbitrary: bef)
  case Nil
  then show ?case by simp
next
  case (Cons x xs)
  show ?case
  proof (cases "isWhiteSpace x")
    case True
    with assms have "c bef (x # xs) = None" by simp
    with True Cons [of "x # bef"] show ?thesis by (simp split: option.splits)
  next
    case False
    then show ?thesis by simp
  qed
qed

lemma lazy_until:
  "repLazy CDot 0 None bef rest (\<lambda>b r. if startsWith r [42, 42] then Some (h b r) else None) =
   (case untilStars rest of None \<Rightarrow> None
    | Some t \<Rightarrow> Some (h (rev t @ bef) (drop (length t) rest)))"
proof (induction rest arbitrary: bef)
  case Nil
  then show ?case by (simp add: startsWith_def js_def)
next
  case (Cons x xs)
  show ?case
  proof (cases "startsWith (x # xs) [42, 42]")
    case True
    then show ?thesis by (simp add: js_def)
  next
    case False
    then show ?thesis using Cons [of "x # bef"] by (simp add: js_def split: option.splits)
  qed
qed

lemma untilStars_prefix: "untilStars rest = Some t \<Longrightarrow> take (length t) rest = t"
  by (induction rest arbitrary: t) (auto split: if_splits)

lemma untilStars_length: "untilStars rest = Some t \<Longrightarrow> length t \<le> length rest"
  by (induction rest arbitrary: t) (auto split: if_splits)

lemma drop_two: "drop 2 r = drop (Suc (Suc 0)) r"
  by (simp add: numeral_2_eq_2)

lemma titleTail_caps:
  assumes "\<not> ignoreCase f"
  shows "map_option (\<lambda>(b, r, cs). cs) (matchC f titleTail b r [] (\<lambda>b r cs. Some (b, r, cs))) =
         map_option (\<lambda>t. [(1, t)]) (boldSpan r)"
proof (cases "startsWith r (js ''**'')")
  case False
  then show ?thesis by (simp add: titleTail_def boldSpan_def litAt_exact [OF assms])
next
  case True
  show ?thesis
  proof (cases "untilStars (drop (Suc (Suc 0)) r)")
    case None
    with True show ?thesis
      by (simp add: titleTail_def boldSpan_def litAt_exact [OF assms] lazy_until js_def drop_two)
  next
    case (Some t)
    from untilStars_length [OF Some]
    have "length r - Suc (Suc (length r - Suc (Suc (length t)))) = length t" by simp
    with True untilStars_prefix [OF Some] Some show ?thesis
      by (simp add: titleTail_def boldSpan_def litAt_exact [OF assms] lazy_until js_def drop_two)
  qed
qed

lemma startTail_ok:
  assumes "\<not> ignoreCase f"
  shows "(matchC f startTail b r [] (\<lambda>b r cs. Some (b, r, cs)) = None) = (boldSpan r = None)"
  by (cases "untilStars (drop (Suc (Suc 0)) r)")
     (simp_all add: startTail_def boldSpan_def litAt_exact [OF assms] lazy_until js_def drop_two)

lemma startTail_caps:
  "matchC f startTail b r [] (\<lambda>b r cs. Some (b, r, cs)) = Some (b', r', cs) \<Longrightarrow> cs = []"
  by (auto simp: startTail_def split: if_splits dest!: repLazy_Some)

lemma tail_space:
  "isWhiteSpace x \<Longrightarrow> matchC f (Seq (Lit (js ''**'')) r) b (x # xs) cs c = None"
  by (auto simp: js_def isWhiteSpace_def canonicalize_def)

lemma opt_zero: "repGreedy k 0 (Some 0) bef rest c = c bef rest"
  by (cases rest) simp_all

lemma core_unfold:
  "matchC f (Seq (Opt (COneOf (js ''*-''))) (Seq (Star CSpace) r2)) bef rest [] (\<lambda>b r cs. Some (b, r, cs)) =
   (case (case rest of [] \<Rightarrow> None
          | x # xs \<Rightarrow>
              if x = 42 \<or> x = 45 then
                repGreedy CSpace 0 None (x # bef) xs (\<lambda>b r. matchC f r2 b r [] (\<lambda>b r cs. Some (b, r, cs)))
              else None) of
      Some res \<Rightarrow> Some res
    | None \<Rightarrow> repGreedy CSpace 0 None bef rest (\<lambda>b r. matchC f r2 b r [] (\<lambda>b r cs. Some (b, r, cs))))"
  by (cases rest) (auto simp: opt_zero js_def split: option.splits)

lemma orElse_map:
  "map_option p A = map_option g A' \<Longrightarrow> map_option p B = map_option g B' \<Longrightarrow>
   map_option p (case A of Some r \<Rightarrow> Some r | None \<Rightarrow> B) =
   map_option g (case A' of Some t \<Rightarrow> Some t | None \<Rightarrow> B')"
  by (cases A; cases A') auto

lemma titleCore_caps:
  assumes "\<not> ignoreCase f"
  shows "map_option (\<lambda>(b, r, cs). cs) (matchC f titleCore bef rest [] (\<lambda>b r cs. Some (b, r, cs))) =
         map_option (\<lambda>t. [(1, t)]) (boldTitle rest)"
proof -
  have sp: "repGreedy CSpace 0 None b r (\<lambda>b r. matchC f titleTail b r [] (\<lambda>b r cs. Some (b, r, cs))) =
            matchC f titleTail (rev (takeWhile isWhiteSpace r) @ b) (dropWhile isWhiteSpace r) [] (\<lambda>b r cs. Some (b, r, cs))"
    for b r
    by (rule spaces_skip) (unfold titleTail_def, rule tail_space)
  have eq: "matchC f titleCore bef rest [] (\<lambda>b r cs. Some (b, r, cs)) =
     (case (case rest of [] \<Rightarrow> None
          | x # xs \<Rightarrow>
              if x = 42 \<or> x = 45 then
                repGreedy CSpace 0 None (x # bef) xs (\<lambda>b r. matchC f titleTail b r [] (\<lambda>b r cs. Some (b, r, cs)))
              else None) of
      Some res \<Rightarrow> Some res
    | None \<Rightarrow> repGreedy CSpace 0 None bef rest (\<lambda>b r. matchC f titleTail b r [] (\<lambda>b r cs. Some (b, r, cs))))"
    unfolding titleCore_def titleTail_def seqs.simps by (rule core_unfold)
  have first: "map_option (\<lambda>(b, r, cs). cs)
      (case rest of [] \<Rightarrow> None
       | x # xs \<Rightarrow>
           if x = 42 \<or> x = 45 then
             matchC f titleTail (rev (takeWhile isWhiteSpace xs) @ x # bef)
               (dropWhile isWhiteSpace xs) [] (\<lambda>b r cs. Some (b, r, cs))
           else None) =
     map_option (\<lambda>t. [(1, t)])
      (case rest of [] \<Rightarrow> None
       | x # xs \<Rightarrow> if x = 42 \<or> x = 45 then boldSpan (dropWhile isWhiteSpace xs) else None)"
    by (cases rest) (simp_all add: titleTail_caps [OF assms])
  show ?thesis
    unfolding eq sp boldTitle_def
    using first titleTail_caps [OF assms] by (rule orElse_map)
qed

lemma orElse_ok:
  "(A = None) = (A' = None) \<Longrightarrow> (B = None) = (B' = None) \<Longrightarrow>
   ((case A of Some r \<Rightarrow> Some r | None \<Rightarrow> B) = None) =
   ((case A' of Some t \<Rightarrow> Some t | None \<Rightarrow> B') = None)"
  by (cases A; cases A') auto

lemma startCore_ok:
  assumes "\<not> ignoreCase f"
  shows "(matchC f startCore bef rest [] (\<lambda>b r cs. Some (b, r, cs)) = None) = (boldTitle rest = None)"
proof -
  have sp: "repGreedy CSpace 0 None b r (\<lambda>b r. matchC f startTail b r [] (\<lambda>b r cs. Some (b, r, cs))) =
            matchC f startTail (rev (takeWhile isWhiteSpace r) @ b) (dropWhile isWhiteSpace r) [] (\<lambda>b r cs. Some (b, r, cs))"
    for b r
    by (rule spaces_skip) (unfold startTail_def, rule tail_space)
  have eq: "matchC f startCore bef rest [] (\<lambda>b r cs. Some (b, r, cs)) =
     (case (case rest of [] \<Rightarrow> None
          | x # xs \<Rightarrow>
              if x = 42 \<or> x = 45 then
                repGreedy CSpace 0 None (x # bef) xs (\<lambda>b r. matchC f startTail b r [] (\<lambda>b r cs. Some (b, r, cs)))
              else None) of
      Some res \<Rightarrow> Some res
    | None \<Rightarrow> repGreedy CSpace 0 None bef rest (\<lambda>b r. matchC f startTail b r [] (\<lambda>b r cs. Some (b, r, cs))))"
    unfolding startCore_def startTail_def seqs.simps by (rule core_unfold)
  have first: "((case rest of [] \<Rightarrow> None
       | x # xs \<Rightarrow>
           if x = 42 \<or> x = 45 then
             matchC f startTail (rev (takeWhile isWhiteSpace xs) @ x # bef)
               (dropWhile isWhiteSpace xs) [] (\<lambda>b r cs. Some (b, r, cs))
           else None) = None) =
     ((case rest of [] \<Rightarrow> None
       | x # xs \<Rightarrow> if x = 42 \<or> x = 45 then boldSpan (dropWhile isWhiteSpace xs) else None) = None)"
    by (cases rest) (simp_all add: startTail_ok [OF assms])
  show ?thesis
    unfolding eq sp boldTitle_def
    using first startTail_ok [OF assms] by (rule orElse_ok)
qed

lemma startCore_caps:
  "matchC f startCore bef rest [] (\<lambda>b r cs. Some (b, r, cs)) = Some (b', r', cs) \<Longrightarrow> cs = []"
  unfolding startCore_def seqs.simps matchC.simps
  by (auto simp: startTail_def split: if_splits dest!: repLazy_Some repGreedy_Some)

lemma reTitle_later: "bef \<noteq> [] \<Longrightarrow> searchFrom noFlags reTitle bef rest = None"
proof (induction rest arbitrary: bef)
  case Nil
  then show ?case by (cases bef) (simp_all add: matchHere_def reTitle_def noFlags_def)
next
  case (Cons c rest)
  then show ?case by (cases bef) (simp_all add: matchHere_def reTitle_def noFlags_def)
qed

lemma reTitle_here:
  "matchC noFlags reTitle [] b [] (\<lambda>b r cs. Some (b, r, cs)) = matchC noFlags titleCore [] b [] (\<lambda>b r cs. Some (b, r, cs))"
  by (simp add: reTitle_def titleCore_def)

lemma blockTitle_bold: "blockTitle b = map_option trim (boldTitle b)"
proof -
  have caps: "map_option (\<lambda>(b, r, cs). cs) (matchC noFlags reTitle [] b [] (\<lambda>b r cs. Some (b, r, cs))) =
              map_option (\<lambda>t. [(1, t)]) (boldTitle b)"
    unfolding reTitle_here by (rule titleCore_caps) (simp add: noFlags_def)
  have search: "searchFrom noFlags reTitle [] b =
        (case matchHere noFlags reTitle [] b of None \<Rightarrow> None | Some (m, cs) \<Rightarrow> Some ([], m, cs))"
    by (cases b) (auto simp: reTitle_later split: option.splits)
  show ?thesis
  proof (cases "matchC noFlags reTitle [] b [] (\<lambda>b r cs. Some (b, r, cs))")
    case None
    with caps show ?thesis
      by (simp add: blockTitle_def blockTitleMatch_def regexExec_def search matchHere_def)
  next
    case (Some x)
    obtain b' r' cs where x: "x = (b', r', cs)" by (cases x)
    with caps Some show ?thesis
      by (cases "boldTitle b")
         (auto simp: blockTitle_def blockTitleMatch_def regexExec_def search matchHere_def group_def)
  qed
qed

lemma reBlockStart_here:
  "matchHere flagM reBlockStart bef rest =
     (if (bef = [] \<or> isLineTerminator (hd bef)) \<and> boldTitle rest \<noteq> None then Some ([], [])
      else None)"
proof -
  have inner: "matchC flagM (seqs [Bol, Opt (COneOf (js ''*-'')), Star CSpace, Lit (js ''**''),
                       StarLazy CDot, Lit (js ''**'')]) bef rest [] (\<lambda>b r cs. Some (b, r, cs)) =
      (if bef = [] \<or> isLineTerminator (hd bef) then matchC flagM startCore bef rest [] (\<lambda>b r cs. Some (b, r, cs)) else None)"
    by (cases bef) (simp_all add: startCore_def flagM_def)
  have ok: "(matchC flagM startCore bef rest [] (\<lambda>b r cs. Some (b, r, cs)) = None) = (boldTitle rest = None)"
    by (rule startCore_ok) (simp add: flagM_def)
  show ?thesis
  proof (cases "matchC flagM startCore bef rest [] (\<lambda>b r cs. Some (b, r, cs))")
    case None
    with ok show ?thesis
      unfolding matchHere_def reBlockStart_def matchC.simps(7) inner by simp
  next
    case (Some x)
    obtain b' r' cs where x: "x = (b', r', cs)" by (cases x)
    with Some startCore_caps have "cs = []" by blast
    with ok Some x show ?thesis
      unfolding matchHere_def reBlockStart_def matchC.simps(7) inner by simp
  qed
qed

lemma split_step_cut:
  assumes "\<And>bef rest. matchHere f r bef rest = (if P bef rest then Some ([], cs0) else None)"
    and "P bef (c # rest)" "cur \<noteq> []"
  shows "splitFrom f r bef (c # rest) cur 0 = rev cur # splitFrom f r (c # bef) rest [c] 0"
  using assms by simp

lemma split_step_keep:
  assumes "\<And>bef rest. matchHere f r bef rest = (if P bef rest then Some ([], cs0) else None)"
    and "\<not> P bef (c # rest) \<or> cur = []"
  shows "splitFrom f r bef (c # rest) cur 0 = splitFrom f r (c # bef) rest (c # cur) 0"
  using assms by auto

lemma split_cut:
  assumes m: "\<And>bef rest. matchHere f r bef rest = (if P bef rest then Some ([], cs0) else None)"
  shows "n \<le> length t \<Longrightarrow> p \<le> n \<Longrightarrow>
         splitFrom f r (rev (take n t)) (drop n t) (rev (take (n - p) (drop p t))) 0 =
         cutFrom t p (filter (\<lambda>q. P (rev (take q t)) (drop q t)) [max n (Suc p)..<length t])"
proof (induction "length t - n" arbitrary: n p)
  case 0
  then have n: "n = length t" by simp
  with 0 show ?case by simp
next
  case (Suc k)
  then have lt: "n < length t" by simp
  let ?c = "t ! n"
  let ?Q = "\<lambda>q. P (rev (take q t)) (drop q t)"
  have dr: "drop n t = ?c # drop (Suc n) t" using lt by (simp add: Cons_nth_drop_Suc)
  have tk: "rev (take (Suc n) t) = ?c # rev (take n t)" using lt by (simp add: take_Suc_conv_app_nth)
  have k: "k = length t - Suc n" using Suc.hyps(2) by simp
  have cur: "rev (take (Suc n - p) (drop p t)) = ?c # rev (take (n - p) (drop p t))"
  proof -
    from Suc.prems have "Suc n - p = Suc (n - p)" by simp
    moreover have "n - p < length (drop p t)" using lt Suc.prems by simp
    moreover have "drop p t ! (n - p) = ?c" using lt Suc.prems by simp
    ultimately show ?thesis by (simp add: take_Suc_conv_app_nth)
  qed
  have empty: "(rev (take (n - p) (drop p t)) = []) = (n = p)"
    using lt Suc.prems by auto
  show ?case
  proof (cases "?Q n \<and> p < n")
    case True
    then have pn: "p < n" and q: "?Q n" by simp_all
    have ih: "splitFrom f r (rev (take (Suc n) t)) (drop (Suc n) t) (rev (take (Suc n - n) (drop n t))) 0 =
              cutFrom t n (filter ?Q [max (Suc n) (Suc n)..<length t])"
      using lt by (intro Suc.hyps(1) k) simp_all
    have one: "rev (take (Suc n - n) (drop n t)) = [?c]" by (simp add: dr)
    from pn have "max n (Suc p) = n" by simp
    then have range: "[max n (Suc p)..<length t] = n # [Suc n..<length t]"
      using lt by (simp add: upt_conv_Cons)
    from pn empty have ne: "rev (take (n - p) (drop p t)) \<noteq> []" by simp
    from q have q': "P (rev (take n t)) (?c # drop (Suc n) t)" using dr by simp
    have "splitFrom f r (rev (take n t)) (?c # drop (Suc n) t) (rev (take (n - p) (drop p t))) 0 =
          rev (rev (take (n - p) (drop p t))) #
          splitFrom f r (?c # rev (take n t)) (drop (Suc n) t) [?c] 0"
      using m q' ne by (rule split_step_cut)
    then have "splitFrom f r (rev (take n t)) (drop n t) (rev (take (n - p) (drop p t))) 0 =
          take (n - p) (drop p t) # splitFrom f r (rev (take (Suc n) t)) (drop (Suc n) t) [?c] 0"
      unfolding tk using dr by simp
    with ih one q show ?thesis by (simp add: range)
  next
    case False
    have ih: "splitFrom f r (rev (take (Suc n) t)) (drop (Suc n) t) (rev (take (Suc n - p) (drop p t))) 0 =
              cutFrom t p (filter ?Q [max (Suc n) (Suc p)..<length t])"
      using lt Suc.prems by (intro Suc.hyps(1) k) simp_all
    have range: "filter ?Q [max n (Suc p)..<length t] = filter ?Q [max (Suc n) (Suc p)..<length t]"
    proof (cases "p < n")
      case True
      with False have "\<not> ?Q n" by simp
      moreover from True have "max n (Suc p) = n" by simp
      then have "[max n (Suc p)..<length t] = n # [Suc n..<length t]"
        using lt by (simp add: upt_conv_Cons)
      moreover from True have "max (Suc n) (Suc p) = Suc n" by simp
      ultimately show ?thesis by simp
    next
      case False
      with Suc.prems have "n = p" by simp
      then show ?thesis by (simp add: max_def)
    qed
    from False empty Suc.prems
    have q': "\<not> P (rev (take n t)) (?c # drop (Suc n) t) \<or> rev (take (n - p) (drop p t)) = []"
      using dr by auto
    have "splitFrom f r (rev (take n t)) (?c # drop (Suc n) t) (rev (take (n - p) (drop p t))) 0 =
          splitFrom f r (?c # rev (take n t)) (drop (Suc n) t) (?c # rev (take (n - p) (drop p t))) 0"
      using m q' by (rule split_step_keep)
    then have "splitFrom f r (rev (take n t)) (drop n t) (rev (take (n - p) (drop p t))) 0 =
          splitFrom f r (rev (take (Suc n) t)) (drop (Suc n) t) (?c # rev (take (n - p) (drop p t))) 0"
      unfolding tk using dr by simp
    with ih show ?thesis by (simp add: cur range)
  qed
qed

lemma last_take: "0 < x \<Longrightarrow> x \<le> length t \<Longrightarrow> last (take x t) = t ! (x - Suc 0)"
  by (cases x) (simp_all add: take_Suc_conv_app_nth)

lemma boldTitle_empty: "boldTitle [] = None"
  by (simp add: boldTitle_def boldSpan_def startsWith_def js_def)

lemma split_blocks: "splitRegex flagM reBlockStart t = cutFrom t 0 (blockStarts t)"
proof (cases "t = []")
  case True
  then show ?thesis
    by (simp add: splitRegex_def reBlockStart_here boldTitle_empty blockStarts_def)
next
  case False
  have "splitFrom flagM reBlockStart (rev (take 0 t)) (drop 0 t) (rev (take (0 - 0) (drop 0 t))) 0 =
        cutFrom t 0 (filter (\<lambda>q. (rev (take q t) = [] \<or> isLineTerminator (hd (rev (take q t)))) \<and>
                                  boldTitle (drop q t) \<noteq> None) [max 0 (Suc 0)..<length t])"
    by (rule split_cut [where ?cs0.0 = "[]"]) (simp_all add: reBlockStart_here)
  moreover have "filter (\<lambda>q. (rev (take q t) = [] \<or> isLineTerminator (hd (rev (take q t)))) \<and>
                                  boldTitle (drop q t) \<noteq> None) [max 0 (Suc 0)..<length t] =
                 blockStarts t"
    unfolding blockStarts_def
    by (rule filter_cong) (auto simp: blockStartAt_def hd_rev last_take)
  ultimately show ?thesis using False by (simp add: splitRegex_def)
qed

lemma validBlocks_spec: "validBlocks t = specBlocks t"
  by (simp add: validBlocks_def specBlocks_def split_blocks)

lemma lower_canonicalize:
  "lowerUnit x = lowerUnit c \<Longrightarrow> canonicalize flagI x = canonicalize flagI c"
  by (auto simp: canonicalize_def lowerUnit_def flagI_def split: if_splits)

lemma litAt_CI: "litAt flagI l rest = startsWithCI rest l"
proof (induction flagI l rest rule: litAt.induct)
  case (1 rest)
  then show ?case by (simp add: startsWithCI_def)
next
  case (2 c l)
  then show ?case by (simp add: startsWithCI_def toLowerCase_def)
next
  case (3 c l x rest)
  then show ?case
    using lower_canonicalize [of x c] canonicalize_lower [of flagI x c]
    by (auto simp: startsWithCI_def toLowerCase_def)
qed

lemma star_any:
  "(\<And>b r. c b r \<noteq> None) \<Longrightarrow> repGreedy CAny 0 None bef rest c = c (rev rest @ bef) []"
proof (induction rest arbitrary: bef)
  case Nil
  then show ?case by simp
next
  case (Cons x xs)
  from Cons.prems [of "rev xs @ x # bef" "[]"]
  obtain y where "c (rev xs @ x # bef) [] = Some y" by auto
  with Cons.IH [OF Cons.prems, of "x # bef"] show ?case by simp
qed

lemma reClauses_here:
  "matchHere flagI reClauses bef rest =
     (if startsWithCI rest clausesMarker
      then Some (rest, [(1, drop (length clausesMarker) rest)]) else None)"
proof (cases "startsWithCI rest clausesMarker")
  case False
  then show ?thesis
    by (simp add: matchHere_def reClauses_def litAt_CI clausesMarker_def)
next
  case True
  then have len: "length clausesMarker \<le> length rest"
    using litAt_length [of flagI clausesMarker rest] by (simp add: litAt_CI)
  with True show ?thesis
    by (simp add: matchHere_def reClauses_def litAt_CI clausesMarker_def [symmetric] star_any)
qed

lemma reClauses_search:
  "map_option (\<lambda>(pre, m, cs). group cs 1) (searchFrom flagI reClauses bef s) =
   afterCI s clausesMarker"
proof (induction s arbitrary: bef)
  case Nil
  then show ?case
    by (simp add: reClauses_here group_def startsWithCI_def clausesMarker_def js_def toLowerCase_def)
next
  case (Cons c s)
  then show ?case by (simp add: reClauses_here group_def)
qed

lemma specBlocks_empty: "specBlocks [] = []"
  by (simp add: specBlocks_def blockStarts_def trim_def)

lemma parseBlock_admitted: "parseBlock b = (if admitted b then Some (clauseOf b) else None)"
proof (cases "boldTitle (trim b)")
  case None
  then have "blockTitle (trim b) = None" by (simp add: blockTitle_bold)
  with None show ?thesis by (simp add: parseBlock_untitled admitted_def titleText_def)
next
  case (Some t)
  then have "blockTitle (trim b) = Some (trim t)" by (simp add: blockTitle_bold)
  from parseBlock_titled [OF this] Some show ?thesis
    by (simp add: admitted_def titleText_def clauseOf_def)
qed

lemma collectClauses_spec:
  "collectClauses t = map clauseOf (filter admitted (specBlocks t))"
  by (simp add: collectClauses_def validBlocks_spec List.map_filter_def parseBlock_admitted
      comp_def cong: map_cong)

lemma parseClauses_blocks:
  "parseClauses s = sortClauses (map clauseOf (filter admitted (responseBlocks s)))"
proof (cases "searchFrom flagI reClauses [] s")
  case None
  with reClauses_search [of "[]" s] have "afterCI s clausesMarker = None" by simp
  with None show ?thesis
    by (simp add: parseClauses_def regexExec_def responseBlocks_def sortClauses_def)
next
  case (Some x)
  obtain pre m cs where x: "x = (pre, m, cs)" by (cases x)
  with Some reClauses_search [of "[]" s] have a: "afterCI s clausesMarker = Some (group cs 1)"
    by simp
  show ?thesis
  proof (cases "group cs 1 = []")
    case True
    with Some x a show ?thesis
      by (simp add: parseClauses_def regexExec_def responseBlocks_def sortClauses_def
          specBlocks_empty trim_def)
  next
    case False
    with Some x a show ?thesis
      by (simp add: parseClauses_def regexExec_def responseBlocks_def collectClauses_spec)
  qed
qed

lemma admitted_clause:
  "admitted b' \<Longrightarrow> clauseOf b = clauseOf b' \<Longrightarrow> admitted b"
  by (simp add: admitted_def clauseOf_def)

lemma set_sortClauses: "set (sortClauses cs) = set cs"
  by (auto simp: sortClauses_partition)

lemma length_sortClauses: "length (sortClauses cs) = length cs"
  using sum_length_filter_compl [of isHigh cs] by (simp add: sortClauses_partition)


text \<open>
  The two label patterns, followed through the matcher: the value the parser takes
  from the first match is the value of the first label of the text.
\<close>

lemma startsWithCI_length: "startsWithCI r a \<Longrightarrow> length a \<le> length r"
  using litAt_length [of flagI a r] by (simp add: litAt_CI)

lemma map_orElse:
  "map_option p (case A of Some x \<Rightarrow> Some x | None \<Rightarrow> B) =
   (case map_option p A of Some y \<Rightarrow> Some y | None \<Rightarrow> map_option p B)"
  by (cases A) simp_all

lemma alt_one_lower:
  "map_option (\<lambda>(b', r', cs'). toLowerCase (group cs' 1))
     (matchC flagI (Lit a) b r []
        (\<lambda>b' r' cs'. Some (b', r', (1, take (length r - length r') r) # cs'))) =
   (if startsWithName r a [] then Some (hyphenLower (a, [])) else None)"
proof (cases "startsWithCI r a")
  case False
  then show ?thesis by (simp add: litAt_CI startsWithName_def)
next
  case True
  with startsWithCI_length [OF True] show ?thesis
    by (simp add: litAt_CI startsWithName_def group_def hyphenLower_def)
       (simp add: startsWithCI_def)
qed

lemma alt_one_normal:
  assumes "noSpace (toLowerCase a)"
  shows "map_option (\<lambda>(b', r', cs'). normalizeCategory (group cs' 1))
     (matchC flagI (Lit a) b r []
        (\<lambda>b' r' cs'. Some (b', r', (1, take (length r - length r') r) # cs'))) =
   (if startsWithName r a [] then Some (hyphenLower (a, [])) else None)"
proof (cases "startsWithCI r a")
  case False
  then show ?thesis by (simp add: litAt_CI startsWithName_def)
next
  case True
  then have "toLowerCase (take (length a) r) = toLowerCase a" by (simp add: startsWithCI_def)
  from normalize_one_word [OF this assms] True startsWithCI_length [OF True] show ?thesis
    by (simp add: litAt_CI startsWithName_def group_def hyphenLower_def)
qed

lemma alt_two_normal:
  assumes "noSpace (toLowerCase a)" "noSpace (toLowerCase c)" "c \<noteq> []"
  shows "map_option (\<lambda>(b', r', cs'). normalizeCategory (group cs' 1))
     (matchC flagI (seqs [Lit a, Chr CSpace, Lit c]) b r []
        (\<lambda>b' r' cs'. Some (b', r', (1, take (length r - length r') r) # cs'))) =
   (if startsWithName r a c then Some (hyphenLower (a, c)) else None)"
proof (cases "startsWithName r a c")
  case False
  with assms(3) show ?thesis
    by (auto simp: litAt_CI startsWithName_def split: list.splits)
next
  case True
  with assms(3) obtain x xs where a: "startsWithCI r a" and d: "drop (length a) r = x # xs"
    and x: "isWhiteSpace x" and c: "startsWithCI xs c"
    by (auto simp: startsWithName_def split: list.splits)
  have la: "length a \<le> length r" using a by (rule startsWithCI_length)
  have lc: "length c \<le> length xs" using c by (rule startsWithCI_length)
  have tk: "take (length r - length (drop (length c) xs)) r =
            take (length a) r @ x # take (length c) xs"
    using la d lc by (rule take_two_words)
  have "toLowerCase (take (length a) r) = toLowerCase a" using a by (simp add: startsWithCI_def)
  moreover have "toLowerCase (take (length c) xs) = toLowerCase c" using c by (simp add: startsWithCI_def)
  ultimately have "normalizeCategory (take (length a) r @ x # take (length c) xs) =
      toLowerCase a @ js ''-'' @ toLowerCase c"
    using assms x by (intro normalize_two_words)
  with True a d x c assms(3) tk show ?thesis
    by (simp add: litAt_CI group_def hyphenLower_def)
qed

lemma severityWords_names:
  "map_option (\<lambda>(b', r', cs'). toLowerCase (group cs' 1))
     (matchC flagI severityWords b r [] (\<lambda>b r cs. Some (b, r, cs))) =
   map_option hyphenLower (nameAt severityNames r)"
  unfolding severityWords_def alts.simps matchC.simps(5,6) map_orElse alt_one_lower
  by (simp add: severityNames_def)

lemma categoryWords_names:
  "map_option (\<lambda>(b', r', cs'). normalizeCategory (group cs' 1))
     (matchC flagI categoryWords b r [] (\<lambda>b r cs. Some (b, r, cs))) =
   map_option hyphenLower (nameAt categoryNames r)"
  unfolding categoryWords_def alts.simps matchC.simps(5,6) map_orElse
    alt_one_normal [OF noSpace_evals(1)]
    alt_two_normal [OF noSpace_evals(2) noSpace_evals(3) word_nonempty(1)]
    alt_two_normal [OF noSpace_evals(4) noSpace_evals(5) word_nonempty(2)]
    alt_two_normal [OF noSpace_evals(6) noSpace_evals(7) word_nonempty(3)]
    alt_two_normal [OF noSpace_evals(8) noSpace_evals(9) word_nonempty(4)]
  by (simp add: categoryNames_def)

lemma space_no_letter:
  "isWhiteSpace x \<Longrightarrow> 65 \<le> c \<Longrightarrow> c \<le> 90 \<Longrightarrow> \<not> litAt flagI (c # l) (x # xs)"
  by (auto simp: isWhiteSpace_def canonicalize_def flagI_def)

lemma severityWords_space:
  "isWhiteSpace x \<Longrightarrow> matchC flagI severityWords b (x # xs) cs c = None"
  using space_no_letter [of x 72] space_no_letter [of x 77] space_no_letter [of x 76]
  by (simp add: severityWords_def js_def del: litAt.simps)

lemma categoryWords_space:
  "isWhiteSpace x \<Longrightarrow> matchC flagI categoryWords b (x # xs) cs c = None"
  using space_no_letter [of x 80] space_no_letter [of x 68] space_no_letter [of x 76]
    space_no_letter [of x 83] space_no_letter [of x 85]
  by (simp add: categoryWords_def js_def del: litAt.simps)

lemma matchHere_caps:
  "map_option (\<lambda>(m, cs). F cs) (matchHere f r bef rest) =
   map_option (\<lambda>(b, r', cs). F cs) (matchC f r bef rest [] (\<lambda>b r cs. Some (b, r, cs)))"
  by (auto simp: matchHere_def split: option.splits)

lemma label_here:
  assumes words: "\<And>b r. map_option (\<lambda>(b', r', cs). F cs)
                     (matchC flagI W b r [] (\<lambda>b r cs. Some (b, r, cs))) =
                   map_option hyphenLower (nameAt names r)"
    and space: "\<And>b x xs. isWhiteSpace x \<Longrightarrow>
                  matchC flagI W b (x # xs) [] (\<lambda>b r cs. Some (b, r, cs)) = None"
  shows "map_option (\<lambda>(m, cs). F cs) (matchHere flagI (seqs [Lit lab, Star CSpace, W]) bef rest) =
         map_option hyphenLower (labelAt lab names rest)"
proof -
  have sp: "repGreedy CSpace 0 None b r (\<lambda>b r. matchC flagI W b r [] (\<lambda>b r cs. Some (b, r, cs))) =
            matchC flagI W (rev (takeWhile isWhiteSpace r) @ b) (dropWhile isWhiteSpace r) []
              (\<lambda>b r cs. Some (b, r, cs))" for b r
    by (rule spaces_skip) (rule space)
  show ?thesis
    unfolding matchHere_caps labelAt_def
    by (simp add: litAt_CI sp words)
qed

lemma search_first:
  assumes "\<And>bef rest. map_option (\<lambda>(m, cs). F cs) (matchHere f r bef rest) = g rest"
  shows "map_option (\<lambda>(pre, m, cs). F cs) (searchFrom f r bef rest) = firstAt g rest"
proof (induction rest arbitrary: bef)
  case Nil
  from assms [of bef "[]"] show ?case by (cases "matchHere f r bef []") auto
next
  case (Cons c rest)
  from assms [of bef "c # rest"] Cons [of "c # bef"] show ?case
    by (cases "matchHere f r bef (c # rest)"; cases "g (c # rest)") auto
qed

lemma firstAt_map: "firstAt (\<lambda>s. map_option h (g s)) s = map_option h (firstAt g s)"
  by (induction s) (auto split: option.splits)

lemma blockSeverity_spec: "blockSeverity b = specSeverity b"
proof -
  have here: "map_option (\<lambda>(m, cs). toLowerCase (group cs 1)) (matchHere flagI reSeverity bef rest) =
              map_option hyphenLower (labelAt (js ''Severity:'') severityNames rest)" for bef rest
    unfolding reSeverity_def by (rule label_here) (rule severityWords_names, rule severityWords_space)
  have "map_option (\<lambda>(pre, m, cs). toLowerCase (group cs 1)) (searchFrom flagI reSeverity [] b) =
        firstAt (\<lambda>s. map_option hyphenLower (labelAt (js ''Severity:'') severityNames s)) b"
    using here by (rule search_first)
  then show ?thesis
    unfolding firstAt_map blockSeverity_def specSeverity_def regexExec_def
    by (cases "searchFrom flagI reSeverity [] b";
        cases "firstAt (labelAt (js ''Severity:'') severityNames) b") auto
qed

lemma blockCategory_spec: "blockCategory b = specCategory b"
proof -
  have here: "map_option (\<lambda>(m, cs). normalizeCategory (group cs 1)) (matchHere flagI reCategory bef rest) =
              map_option hyphenLower (labelAt (js ''Category:'') categoryNames rest)" for bef rest
    unfolding reCategory_def by (rule label_here) (rule categoryWords_names, rule categoryWords_space)
  have "map_option (\<lambda>(pre, m, cs). normalizeCategory (group cs 1)) (searchFrom flagI reCategory [] b) =
        firstAt (\<lambda>s. map_option hyphenLower (labelAt (js ''Category:'') categoryNames s)) b"
    using here by (rule search_first)
  then show ?thesis
    unfolding firstAt_map blockCategory_def specCategory_def regexExec_def
    by (cases "searchFrom flagI reCategory [] b";
        cases "firstAt (labelAt (js ''Category:'') categoryNames) b") auto
qed

lemma firstAt_here: "g s = Some v \<Longrightarrow> firstAt g s = Some v"
  by (cases s) simp_all

lemma firstAt_skip:
  "n \<le> length s \<Longrightarrow> (\<And>i. i < n \<Longrightarrow> g (drop i s) = None) \<Longrightarrow> firstAt g s = firstAt g (drop n s)"
proof (induction s arbitrary: n)
  case Nil
  then show ?case by simp
next
  case (Cons c cs)
  show ?case
  proof (cases n)
    case 0
    then show ?thesis by simp
  next
    case (Suc k)
    from Cons.prems(2) [of 0] Suc have "g (c # cs) = None" by simp
    moreover have "firstAt g cs = firstAt g (drop k cs)"
    proof (rule Cons.IH)
      show "k \<le> length cs" using Cons.prems(1) Suc by simp
      show "g (drop i cs) = None" if "i < k" for i
        using Cons.prems(2) [of "Suc i"] that Suc by simp
    qed
    ultimately show ?thesis using Suc by simp
  qed
qed

lemma startsWithCI_nonempty: "startsWithCI r p \<Longrightarrow> p \<noteq> [] \<Longrightarrow> r \<noteq> []"
  by (auto simp: startsWithCI_def toLowerCase_def)

lemma first_label:
  assumes occ: "firstOccurrenceCI s lab n" and lab: "lab \<noteq> []"
    and here: "labelAt lab names (drop n s) = Some nm"
  shows "firstAt (labelAt lab names) s = Some nm"
proof -
  from occ have "startsWithCI (drop n s) lab" by (simp add: firstOccurrenceCI_def)
  then have "drop n s \<noteq> []" using lab by (rule startsWithCI_nonempty)
  then have n: "n \<le> length s" by simp
  have "labelAt lab names (drop i s) = None" if "i < n" for i
    using occ that by (simp add: firstOccurrenceCI_def list_all_iff labelAt_def)
  with n have "firstAt (labelAt lab names) s = firstAt (labelAt lab names) (drop n s)"
    by (rule firstAt_skip)
  with here show ?thesis by (simp add: firstAt_here)
qed

lemma name_first_letter:
  "startsWithName r a b \<Longrightarrow> a \<noteq> [] \<Longrightarrow> r \<noteq> [] \<and> lowerUnit (hd r) = lowerUnit (hd a)"
  by (cases r; cases a) (auto simp: startsWithName_def startsWithCI_def toLowerCase_def)

lemma nameAt_found:
  assumes "(a, b) \<in> set names" "startsWithName r a b"
    "distinct (map (\<lambda>n. lowerUnit (hd (fst n))) names)" "\<forall>n \<in> set names. fst n \<noteq> []"
  shows "nameAt names r = Some (a, b)"
  using assms
proof (induction names)
  case Nil
  then show ?case by simp
next
  case (Cons n names)
  obtain a' b' where n: "n = (a', b')" by (cases n)
  show ?case
  proof (cases "(a, b) = (a', b')")
    case True
    with Cons.prems n show ?thesis by simp
  next
    case False
    with Cons.prems(1) n have mem: "(a, b) \<in> set names" by auto
    have "\<not> startsWithName r a' b'"
    proof
      assume "startsWithName r a' b'"
      with Cons.prems(4) n have "lowerUnit (hd r) = lowerUnit (hd a')"
        using name_first_letter by auto
      moreover from Cons.prems(2,4) mem have "lowerUnit (hd r) = lowerUnit (hd a)"
        using name_first_letter by fastforce
      ultimately have "lowerUnit (hd a') \<in> (\<lambda>n. lowerUnit (hd (fst n))) ` set names"
        using mem by force
      with Cons.prems(3) n show False by simp
    qed
    with Cons n mem show ?thesis by simp
  qed
qed

lemma dropWhile_spaces:
  "list_all isWhiteSpace ws \<Longrightarrow> rest \<noteq> [] \<Longrightarrow> \<not> isWhiteSpace (hd rest) \<Longrightarrow>
   dropWhile isWhiteSpace (ws @ rest) = rest"
  by (induction ws) (auto simp: neq_Nil_conv)

lemma names_distinct:
  "distinct (map (\<lambda>n. lowerUnit (hd (fst n))) severityNames)" "\<forall>n \<in> set severityNames. fst n \<noteq> []"
  "distinct (map (\<lambda>n. lowerUnit (hd (fst n))) categoryNames)" "\<forall>n \<in> set categoryNames. fst n \<noteq> []"
  by (simp_all add: severityNames_def categoryNames_def js_def lowerUnit_def)

lemma names_noSpace:
  "\<forall>n \<in> set severityNames. noSpace (toLowerCase (fst n))"
  "\<forall>n \<in> set categoryNames. noSpace (toLowerCase (fst n))"
  by (simp_all add: severityNames_def categoryNames_def js_def toLowerCase_def lowerUnit_def
      noSpace_def isWhiteSpace_def)

lemma label_value:
  assumes occ: "firstOccurrenceCI s lab n" and lab: "lab \<noteq> []"
    and rest: "drop (n + length lab) s = ws @ rest" and ws: "list_all isWhiteSpace ws"
    and mem: "(a, b) \<in> set names" and name: "startsWithName rest a b"
    and dist: "distinct (map (\<lambda>n. lowerUnit (hd (fst n))) names)"
    and ne: "\<forall>n \<in> set names. fst n \<noteq> []"
    and ns: "\<forall>n \<in> set names. noSpace (toLowerCase (fst n))"
  shows "firstAt (labelAt lab names) s = Some (a, b)"
proof -
  from mem ne have a: "a \<noteq> []" by auto
  from name_first_letter [OF name a] have r: "rest \<noteq> []"
    and l: "lowerUnit (hd rest) = lowerUnit (hd a)" by simp_all
  from mem ns have "noSpace (toLowerCase a)" by auto
  with a have "\<not> isWhiteSpace (lowerUnit (hd a))"
    by (cases a) (simp_all add: noSpace_def toLowerCase_def)
  moreover have "isWhiteSpace c \<Longrightarrow> lowerUnit c = c" for c
    by (auto simp: isWhiteSpace_def lowerUnit_def)
  ultimately have "\<not> isWhiteSpace (hd rest)" using l by metis
  with ws r have "dropWhile isWhiteSpace (ws @ rest) = rest" by (rule dropWhile_spaces)
  moreover have "nameAt names rest = Some (a, b)" using mem name dist ne by (rule nameAt_found)
  moreover have "drop (length lab) (drop n s) = ws @ rest" using rest by (simp add: add.commute)
  moreover from occ have "startsWithCI (drop n s) lab" by (simp add: firstOccurrenceCI_def)
  ultimately have "labelAt lab names (drop n s) = Some (a, b)" by (simp add: labelAt_def)
  with occ lab show ?thesis by (rule first_label)
qed

lemma one_word_name:
  "toLowerCase w = toLowerCase a \<Longrightarrow> startsWithName (w @ post) a []"
proof -
  assume eq: "toLowerCase w = toLowerCase a"
  then have "length w = length a" by (metis length_map toLowerCase_def)
  with eq show ?thesis by (simp add: startsWithName_def startsWithCI_def)
qed

lemma two_word_name:
  assumes "toLowerCase u = toLowerCase a" "isWhiteSpace x" "toLowerCase v = toLowerCase b"
  shows "startsWithName (u @ [x] @ v @ post) a b"
proof -
  from assms(1) have "length u = length a" by (metis length_map toLowerCase_def)
  moreover from assms(3) have "length v = length b" by (metis length_map toLowerCase_def)
  ultimately show ?thesis using assms by (simp add: startsWithName_def startsWithCI_def)
qed

lemma label_lengths: "length (js ''Severity:'') = 9" "length (js ''Category:'') = 9"
  by (simp_all add: js_def)

lemma severity_value:
  assumes "a \<in> {js ''High'', js ''Medium'', js ''Low''}"
    "firstOccurrenceCI block (js ''Severity:'') n"
    "drop (n + 9) block = ws @ w @ post" "list_all isWhiteSpace ws" "toLowerCase w = toLowerCase a"
  shows "blockSeverity block = toLowerCase a"
proof -
  have "firstAt (labelAt (js ''Severity:'') severityNames) block = Some (a, [])"
  proof (rule label_value [OF assms(2)])
    show "js ''Severity:'' \<noteq> []" by (simp add: js_def)
    show "drop (n + length (js ''Severity:'')) block = ws @ w @ post"
      unfolding label_lengths by (rule assms(3))
    show "(a, []) \<in> set severityNames" using assms(1) by (auto simp: severityNames_def)
    show "startsWithName (w @ post) a []" using assms(5) by (rule one_word_name)
  qed (rule assms names_distinct names_noSpace)+
  then show ?thesis by (simp add: blockSeverity_spec specSeverity_def hyphenLower_def)
qed

lemma category_value_one:
  assumes "firstOccurrenceCI block (js ''Category:'') n"
    "drop (n + 9) block = ws @ w @ post" "list_all isWhiteSpace ws"
    "toLowerCase w = js ''privacy''"
  shows "blockCategory block = js ''privacy''"
proof -
  have "firstAt (labelAt (js ''Category:'') categoryNames) block = Some (js ''Privacy'', [])"
  proof (rule label_value [OF assms(1)])
    show "js ''Category:'' \<noteq> []" by (simp add: js_def)
    show "drop (n + length (js ''Category:'')) block = ws @ w @ post"
      unfolding label_lengths by (rule assms(2))
    show "(js ''Privacy'', []) \<in> set categoryNames" by (simp add: categoryNames_def)
    show "startsWithName (w @ post) (js ''Privacy'') []"
      using assms(4) by (intro one_word_name) (simp add: word_evals)
  qed (rule assms names_distinct names_noSpace)+
  then show ?thesis by (simp add: blockCategory_spec specCategory_def hyphenLower_def word_evals)
qed

lemma category_value_two:
  assumes "(a, b) \<in> {(js ''Data'', js ''Usage''), (js ''Legal'', js ''Rights''),
                      (js ''Service'', js ''Changes''), (js ''User'', js ''Content'')}"
    "firstOccurrenceCI block (js ''Category:'') n"
    "drop (n + 9) block = ws @ u @ [x] @ v @ post" "list_all isWhiteSpace ws"
    "toLowerCase u = toLowerCase a" "isWhiteSpace x" "toLowerCase v = toLowerCase b"
  shows "blockCategory block = toLowerCase a @ js ''-'' @ toLowerCase b"
proof -
  have "firstAt (labelAt (js ''Category:'') categoryNames) block = Some (a, b)"
  proof (rule label_value [OF assms(2)])
    show "js ''Category:'' \<noteq> []" by (simp add: js_def)
    show "drop (n + length (js ''Category:'')) block = ws @ u @ [x] @ v @ post"
      unfolding label_lengths by (rule assms(3))
    show "(a, b) \<in> set categoryNames" using assms(1) by (auto simp: categoryNames_def)
    show "startsWithName (u @ [x] @ v @ post) a b" using assms(5-7) by (rule two_word_name)
  qed (rule assms names_distinct names_noSpace)+
  moreover from assms(1) have "b \<noteq> []" by (auto simp: js_def)
  ultimately show ?thesis by (simp add: blockCategory_spec specCategory_def hyphenLower_def)
qed


section \<open>The worked example\<close>

lemma example_summary:
  "parseSummary exampleResponse = js ''<ul><li>Point one</li><li>Point two</li></ul>''"
  by (simp add: exampleResponse_def evalDefs flagDefs reDefs parseDefs)

lemma example_clauses:
  "parseClauses exampleResponse =
     [\<lparr>title = js ''Broad Discretion'', text' = js ''This clause is vague.'',
       severity = js ''high'', category = js ''legal-rights''\<rparr>]"
  by (simp add: exampleResponse_def evalDefs flagDefs reDefs parseDefs)

text \<open>
  Claim C3. On the model response of the specification's example the parser returns the
  summary as an unordered list of the two items ``Point one'' and ``Point two'', and
  exactly one clause: title ``Broad Discretion'', severity \<open>high\<close>, category
  \<open>legal-rights\<close>, and the text ``This clause is vague.'' without the Severity and
  Category lines.
\<close>

theorem worked_example:
  "parseAIResponse exampleResponse =
     \<lparr>summary = js ''<ul><li>Point one</li><li>Point two</li></ul>'',
      concerningClauses =
        [\<lparr>title = js ''Broad Discretion'', text' = js ''This clause is vague.'',
          severity = js ''high'', category = js ''legal-rights''\<rparr>]\<rparr>"
  by (simp add: parseAIResponse_def example_summary example_clauses)


section \<open>Responses without a section marker\<close>

text \<open>
  Claim C1, as amended. Where the response does not contain the clauses marker (in any
  letter case) the clause list is empty; where it does not contain the summary marker
  the summary is the default placeholder. The parser is a total function of the
  response text: it returns a result for every string.
\<close>

theorem missing_markers_defaults:
  "(\<not> occursCI s clausesMarker \<longrightarrow> concerningClauses (parseAIResponse s) = []) \<and>
   (\<not> occursCI s summaryMarker \<longrightarrow> summary (parseAIResponse s) = defaultSummary)"
  by (simp add: parseAIResponse_def no_clauses_marker no_summary_marker)

lemma no_markers_in_hello:
  "\<not> occursCI (js ''hello'') clausesMarker" "\<not> occursCI (js ''hello'') summaryMarker"
  by (simp_all add: clausesMarker_def summaryMarker_def startsWithCI_def toLowerCase_def js_def)

theorem missing_markers_defaults_witness:
  "\<not> occursCI (js ''hello'') clausesMarker \<and> \<not> occursCI (js ''hello'') summaryMarker \<and>
   concerningClauses (parseAIResponse (js ''hello'')) = [] \<and>
   summary (parseAIResponse (js ''hello'')) = js ''<p>Summary could not be parsed.</p>''"
  using missing_markers_defaults [of "js ''hello''"] no_markers_in_hello
  by (simp add: defaultSummary_def)

text \<open>
  The claim as stated also promises the placeholder summary whenever the clauses marker
  is missing. The summary is parsed on its own: a response with a summary section and
  no clauses section has its summary rendered.
\<close>

lemma summaryOnly_facts:
  "\<not> occursCI summaryOnly clausesMarker"
  "parseSummary summaryOnly = js ''<p>Hello</p>''"
   apply (simp add: summaryOnly_def clausesMarker_def startsWithCI_def toLowerCase_def lowerUnit_def js_def)
  apply (simp add: summaryOnly_def evalDefs flagDefs reDefs parseDefs)
  done

theorem summary_parsed_without_clauses_marker:
  "\<not> (\<forall>s. \<not> occursCI s clausesMarker \<longrightarrow>
          concerningClauses (parseAIResponse s) = [] \<and> summary (parseAIResponse s) = defaultSummary)"
proof
  assume "\<forall>s. \<not> occursCI s clausesMarker \<longrightarrow>
          concerningClauses (parseAIResponse s) = [] \<and> summary (parseAIResponse s) = defaultSummary"
  with summaryOnly_facts(1) have "summary (parseAIResponse summaryOnly) = defaultSummary" by blast
  then show False
    by (simp add: parseAIResponse_def summaryOnly_facts(2) defaultSummary_def js_def)
qed


section \<open>Admission of a clause block\<close>

lemma blocksResponse_after:
  "afterCI blocksResponse clausesMarker = Some ([10] @ introBlock @ blockA @ blockB @ blockC)"
  by (simp add: blocksResponse_def clausesMarker_def introBlock_def blockA_def blockB_def blockC_def
      startsWithCI_def js_def toLowerCase_def lowerUnit_def)

lemma blocksResponse_starts:
  "blockStarts (introBlock @ blockA @ blockB @ blockC) = [11, 23, 31]"
  by (simp add: blockStarts_def blockStartAt_def boldTitle_def boldSpan_def startsWith_def
      introBlock_def blockA_def blockB_def blockC_def js_def isWhiteSpace_def isLineTerminator_def
      upt_rec_numeral)

lemma blocks_trim:
  "trim ([10] @ introBlock @ blockA @ blockB @ blockC) = introBlock @ blockA @ blockB @ blockC"
  by (simp add: introBlock_def blockA_def blockB_def blockC_def js_def trim_def isWhiteSpace_def)

lemma blocks_cut:
  "filter (\<lambda>block. trim block \<noteq> [])
     (cutFrom (introBlock @ blockA @ blockB @ blockC) 0 [11, 23, 31]) =
   [introBlock, blockA, blockB, blockC]"
  by (simp add: introBlock_def blockA_def blockB_def blockC_def js_def trim_def isWhiteSpace_def)

lemma blocksResponse_blocks: "responseBlocks blocksResponse = [introBlock, blockA, blockB, blockC]"
  unfolding responseBlocks_def blocksResponse_after specBlocks_def option.case blocks_trim
    blocksResponse_starts
  by (rule blocks_cut)

lemma blocks_admitted:
  "\<not> admitted introBlock" "admitted blockA" "\<not> admitted blockB" "admitted blockC"
  by (simp_all add: admitted_def titleText_def boldTitle_def boldSpan_def
      introBlock_def blockA_def blockB_def blockC_def evalDefs flagDefs reDefs parseDefs)

lemma blocks_clauses: "clauseOf blockA = clauseA" "clauseOf blockC = clauseC"
  by (simp_all add: clauseOf_def clauseA_def clauseC_def titleText_def boldTitle_def boldSpan_def
      blockA_def blockC_def evalDefs flagDefs reDefs parseDefs)

lemma introBlock_facts: "boldTitle (trim introBlock) = None" "42 \<notin> set introBlock"
  by (simp_all add: boldTitle_def boldSpan_def introBlock_def evalDefs)

lemma clauses_sorted: "sortClauses [clauseA, clauseC] = [clauseC, clauseA]"
  by (simp add: sortClauses_partition isHigh_def clauseA_def clauseC_def js_def)

text \<open>
  Claim C4. The output clause list is the presentation sort of the clauses of the
  admitted blocks of the response, in order; a block is admitted exactly when its
  extracted title and its converted explanation text are both non-empty. So a block
  of the response contributes its clause to the output if and only if it is admitted,
  the output has as many clauses as there are admitted blocks, and every clause of
  the output is that of an admitted block, with the block's own title and text, both
  non-empty. The blocks are the non-blank pieces of the clauses section cut where a
  new line begins with a bold title, and the extracted title is the trimmed text
  inside the bold span the block starts with. A block without such a span contributes
  nothing, and so does every block without an asterisk: no title is ever made up.
\<close>

theorem clause_admitted_iff:
  "concerningClauses (parseAIResponse s) =
     sortClauses (map clauseOf (filter admitted (responseBlocks s))) \<and>
   (b \<in> set (responseBlocks s) \<longrightarrow>
      (clauseOf b \<in> set (concerningClauses (parseAIResponse s)) \<longleftrightarrow> admitted b)) \<and>
   length (concerningClauses (parseAIResponse s)) = length (filter admitted (responseBlocks s)) \<and>
   (c \<in> set (concerningClauses (parseAIResponse s)) \<longrightarrow>
      (\<exists>b' \<in> set (responseBlocks s). admitted b' \<and> c = clauseOf b') \<and>
      title c \<noteq> [] \<and> text' c \<noteq> []) \<and>
   validBlocks t = filter (\<lambda>block. trim block \<noteq> []) (cutFrom t 0 (blockStarts t)) \<and>
   parseBlock b = (if admitted b then Some (clauseOf b) else None) \<and>
   blockTitle (trim b) = map_option trim (boldTitle (trim b)) \<and>
   (boldTitle (trim b) = None \<longrightarrow> parseBlock b = None) \<and>
   (42 \<notin> set b \<longrightarrow> parseBlock b = None)"
proof (intro conjI)
  let ?out = "concerningClauses (parseAIResponse s)"
  show out: "?out = sortClauses (map clauseOf (filter admitted (responseBlocks s)))"
    by (simp add: parseAIResponse_def parseClauses_blocks)
  then have set: "set ?out = clauseOf ` {b \<in> set (responseBlocks s). admitted b}"
    by (simp add: set_sortClauses)
  show "b \<in> set (responseBlocks s) \<longrightarrow> (clauseOf b \<in> set ?out \<longleftrightarrow> admitted b)"
    unfolding set by (auto intro: admitted_clause)
  show "length ?out = length (filter admitted (responseBlocks s))"
    unfolding out by (simp add: length_sortClauses)
  show "c \<in> set ?out \<longrightarrow>
      (\<exists>b' \<in> set (responseBlocks s). admitted b' \<and> c = clauseOf b') \<and>
      title c \<noteq> [] \<and> text' c \<noteq> []"
    unfolding set by (auto simp: admitted_def clauseOf_def)
  show "validBlocks t = filter (\<lambda>block. trim block \<noteq> []) (cutFrom t 0 (blockStarts t))"
    by (simp add: validBlocks_spec specBlocks_def)
  show "parseBlock b = (if admitted b then Some (clauseOf b) else None)"
    by (rule parseBlock_admitted)
  show "blockTitle (trim b) = map_option trim (boldTitle (trim b))"
    by (rule blockTitle_bold)
  show "boldTitle (trim b) = None \<longrightarrow> parseBlock b = None"
    by (simp add: parseBlock_admitted admitted_def titleText_def)
  show "42 \<notin> set b \<longrightarrow> parseBlock b = None"
  proof
    assume "42 \<notin> set b"
    then have "42 \<notin> set (trim b)" using set_trim by blast
    then have "blockTitleMatch (trim b) = None" by (rule no_star_no_title)
    then show "parseBlock b = None" by (simp add: parseBlock_untitled blockTitle_def)
  qed
qed

theorem clause_admitted_iff_witness:
  "responseBlocks blocksResponse = [introBlock, blockA, blockB, blockC] \<and>
   \<not> admitted introBlock \<and> admitted blockA \<and> \<not> admitted blockB \<and> admitted blockC \<and>
   concerningClauses (parseAIResponse blocksResponse) = [clauseC, clauseA] \<and>
   clauseOf introBlock \<notin> set (concerningClauses (parseAIResponse blocksResponse)) \<and>
   boldTitle (trim introBlock) = None \<and> 42 \<notin> set introBlock \<and> parseBlock introBlock = None \<and>
   parseBlock blockC = Some clauseC \<and>
   validBlocks (introBlock @ blockA @ blockB @ blockC) = [introBlock, blockA, blockB, blockC]"
proof -
  let ?t = "introBlock @ blockA @ blockB @ blockC"
  note intro = clause_admitted_iff [of blocksResponse introBlock clauseC ?t]
  note last = clause_admitted_iff [of blocksResponse blockC clauseC ?t]
  from intro have "concerningClauses (parseAIResponse blocksResponse) =
      sortClauses (map clauseOf (filter admitted (responseBlocks blocksResponse)))"
    by (rule conjunct1)
  then have out: "concerningClauses (parseAIResponse blocksResponse) = [clauseC, clauseA]"
    by (simp add: blocksResponse_blocks blocks_admitted blocks_clauses clauses_sorted)
  from intro have "introBlock \<in> set (responseBlocks blocksResponse) \<longrightarrow>
      (clauseOf introBlock \<in> set (concerningClauses (parseAIResponse blocksResponse)) \<longleftrightarrow>
       admitted introBlock)"
    by blast
  then have notin: "clauseOf introBlock \<notin> set (concerningClauses (parseAIResponse blocksResponse))"
    by (simp add: blocksResponse_blocks blocks_admitted)
  from intro have "42 \<notin> set introBlock \<longrightarrow> parseBlock introBlock = None" by blast
  then have none: "parseBlock introBlock = None" by (simp add: introBlock_facts)
  from last have "parseBlock blockC = (if admitted blockC then Some (clauseOf blockC) else None)"
    by blast
  then have some: "parseBlock blockC = Some clauseC" by (simp add: blocks_admitted blocks_clauses)
  from intro have "validBlocks ?t = filter (\<lambda>block. trim block \<noteq> []) (cutFrom ?t 0 (blockStarts ?t))"
    by blast
  then have valid: "validBlocks ?t = [introBlock, blockA, blockB, blockC]"
    unfolding blocksResponse_starts by (simp only: blocks_cut)
  from out notin none some valid blocksResponse_blocks blocks_admitted introBlock_facts
  show ?thesis by simp
qed


section \<open>Severity and category\<close>

lemma collectClauses_member:
  "c \<in> set (collectClauses t) \<Longrightarrow> \<exists>b. parseBlock b = Some c"
  by (auto simp: collectClauses_def List.map_filter_def)

lemma parseBlock_enums:
  assumes "parseBlock b = Some c"
  shows "severity c \<in> severities \<and> category c \<in> categories"
proof (cases "blockTitle (trim b)")
  case None
  with assms show ?thesis by (simp add: parseBlock_untitled)
next
  case (Some t)
  with assms have "severity c = blockSeverity (trim b)" "category c = blockCategory (trim b)"
    by (auto simp: parseBlock_titled split: if_splits)
  then show ?thesis by (simp add: blockSeverity_valid blockCategory_valid)
qed

lemma parsed_clause_member:
  assumes "c \<in> set (concerningClauses (parseAIResponse s))"
  shows "\<exists>b. parseBlock b = Some c"
proof -
  from assms have "c \<in> set (clausesInParseOrder s)"
    by (auto simp: parseAIResponse_def parseClauses_sorted sortClauses_partition)
  then show ?thesis
    by (auto simp: clausesInParseOrder_def split: option.splits if_splits dest: collectClauses_member)
qed

lemma no_severity_label: "\<not> occursCI b (js ''Severity:'') \<Longrightarrow> blockSeverity b = js ''medium''"
  by (simp add: blockSeverity_def regexExec_def reSeverity_def searchFrom_no_occurrence)

lemma no_category_label: "\<not> occursCI b (js ''Category:'') \<Longrightarrow> blockCategory b = js ''general''"
  by (simp add: blockCategory_def regexExec_def reCategory_def searchFrom_no_occurrence)

text \<open>
  Claim C5, as amended. The severity of a block is the lower-cased name of the first
  \<open>Severity:\<close> label in it and \<open>medium\<close> when it has none; its category is the
  hyphenated lower-cased name of the first \<open>Category:\<close> label and \<open>general\<close> when it has
  none. A label is the keyword in any letter case, any white space, and one of the
  listed names in any letter case, the two words of a name separated by exactly one
  white-space character of any kind. In particular, where the keyword first occurs
  and is followed by white space and a listed name, the value is that name's; a
  block without the keyword gets the default. Both values are always members of
  their enumerations, for every block and for every clause the parser returns.
\<close>

theorem severity_category_valid:
  "blockSeverity b = specSeverity b \<and> blockCategory b = specCategory b \<and>
   (a \<in> {js ''High'', js ''Medium'', js ''Low''} \<longrightarrow>
    firstOccurrenceCI b (js ''Severity:'') n \<longrightarrow> drop (n + 9) b = ws @ w @ post \<longrightarrow>
    list_all isWhiteSpace ws \<longrightarrow> toLowerCase w = toLowerCase a \<longrightarrow>
      blockSeverity b = toLowerCase a) \<and>
   (firstOccurrenceCI b (js ''Category:'') m \<longrightarrow> drop (m + 9) b = ws' @ w' @ post' \<longrightarrow>
    list_all isWhiteSpace ws' \<longrightarrow> toLowerCase w' = js ''privacy'' \<longrightarrow>
      blockCategory b = js ''privacy'') \<and>
   ((c, d) \<in> {(js ''Data'', js ''Usage''), (js ''Legal'', js ''Rights''),
               (js ''Service'', js ''Changes''), (js ''User'', js ''Content'')} \<longrightarrow>
    firstOccurrenceCI b (js ''Category:'') m \<longrightarrow> drop (m + 9) b = ws' @ u @ [x] @ v @ post' \<longrightarrow>
    list_all isWhiteSpace ws' \<longrightarrow> toLowerCase u = toLowerCase c \<longrightarrow> isWhiteSpace x \<longrightarrow>
    toLowerCase v = toLowerCase d \<longrightarrow>
      blockCategory b = toLowerCase c @ js ''-'' @ toLowerCase d) \<and>
   (\<not> occursCI b (js ''Severity:'') \<longrightarrow> blockSeverity b = js ''medium'') \<and>
   (\<not> occursCI b (js ''Category:'') \<longrightarrow> blockCategory b = js ''general'') \<and>
   (regexExec flagI reSeverity b = None \<longrightarrow> blockSeverity b = js ''medium'') \<and>
   (regexExec flagI reCategory b = None \<longrightarrow> blockCategory b = js ''general'') \<and>
   blockSeverity b \<in> severities \<and> blockCategory b \<in> categories \<and>
   (cl \<in> set (concerningClauses (parseAIResponse s)) \<longrightarrow>
      severity cl \<in> severities \<and> category cl \<in> categories)"
proof (intro conjI impI)
  show "blockSeverity b = specSeverity b" by (rule blockSeverity_spec)
  show "blockCategory b = specCategory b" by (rule blockCategory_spec)
  show "blockSeverity b = toLowerCase a"
    if "a \<in> {js ''High'', js ''Medium'', js ''Low''}" "firstOccurrenceCI b (js ''Severity:'') n"
      "drop (n + 9) b = ws @ w @ post" "list_all isWhiteSpace ws" "toLowerCase w = toLowerCase a"
    using that by (rule severity_value)
  show "blockCategory b = js ''privacy''"
    if "firstOccurrenceCI b (js ''Category:'') m" "drop (m + 9) b = ws' @ w' @ post'"
      "list_all isWhiteSpace ws'" "toLowerCase w' = js ''privacy''"
    using that by (rule category_value_one)
  show "blockCategory b = toLowerCase c @ js ''-'' @ toLowerCase d"
    if "(c, d) \<in> {(js ''Data'', js ''Usage''), (js ''Legal'', js ''Rights''),
               (js ''Service'', js ''Changes''), (js ''User'', js ''Content'')}"
      "firstOccurrenceCI b (js ''Category:'') m" "drop (m + 9) b = ws' @ u @ [x] @ v @ post'"
      "list_all isWhiteSpace ws'" "toLowerCase u = toLowerCase c" "isWhiteSpace x"
      "toLowerCase v = toLowerCase d"
    using that by (rule category_value_two)
  show "blockSeverity b = js ''medium''" if "\<not> occursCI b (js ''Severity:'')"
    using that by (rule no_severity_label)
  show "blockCategory b = js ''general''" if "\<not> occursCI b (js ''Category:'')"
    using that by (rule no_category_label)
  show "blockSeverity b = js ''medium''" if "regexExec flagI reSeverity b = None"
    using that by (simp add: blockSeverity_def)
  show "blockCategory b = js ''general''" if "regexExec flagI reCategory b = None"
    using that by (simp add: blockCategory_def)
  show "blockSeverity b \<in> severities" by (rule blockSeverity_valid)
  show "blockCategory b \<in> categories" by (rule blockCategory_valid)
  show "severity cl \<in> severities" "category cl \<in> categories"
    if "cl \<in> set (concerningClauses (parseAIResponse s))"
    using that parsed_clause_member parseBlock_enums by blast+
qed

lemma labelledBlock_occurrences:
  "firstOccurrenceCI labelledBlock (js ''Severity:'') 10"
  "firstOccurrenceCI labelledBlock (js ''Category:'') 24"
  "firstOccurrenceCI privacyBlock (js ''Category:'') 2"
  by (simp_all add: firstOccurrenceCI_def labelledBlock_def privacyBlock_def startsWithCI_def js_def
      toLowerCase_def lowerUnit_def upt_conv_Cons)

lemma labelledBlock_parts:
  "drop (10 + 9) labelledBlock = [9] @ js ''LOW'' @ ([10] @ js ''category:   data'' @ [9] @ js ''USAGE'')"
  "drop (24 + 9) labelledBlock = js ''   '' @ js ''data'' @ [9] @ js ''USAGE'' @ []"
  "drop (2 + 9) privacyBlock = js '' '' @ js ''privacy'' @ js ''!''"
  by (simp_all add: labelledBlock_def privacyBlock_def js_def)

lemma label_samples:
  "list_all isWhiteSpace [9]" "list_all isWhiteSpace (js ''   '')" "list_all isWhiteSpace (js '' '')"
  "isWhiteSpace 9"
  "toLowerCase (js ''LOW'') = toLowerCase (js ''Low'')" "toLowerCase (js ''Low'') = js ''low''"
  "toLowerCase (js ''data'') = toLowerCase (js ''Data'')"
  "toLowerCase (js ''USAGE'') = toLowerCase (js ''Usage'')"
  "toLowerCase (js ''privacy'') = js ''privacy''"
  by (simp_all add: js_def isWhiteSpace_def toLowerCase_def lowerUnit_def)

lemma unlabelled_block:
  "\<not> occursCI untitledBlock (js ''Severity:'')" "\<not> occursCI untitledBlock (js ''Category:'')"
  by (simp_all add: untitledBlock_def startsWithCI_def js_def toLowerCase_def lowerUnit_def)

theorem severity_category_valid_witness:
  "firstOccurrenceCI labelledBlock (js ''Severity:'') 10 \<and>
   blockSeverity labelledBlock = js ''low'' \<and>
   firstOccurrenceCI labelledBlock (js ''Category:'') 24 \<and>
   blockCategory labelledBlock = js ''data-usage'' \<and>
   firstOccurrenceCI privacyBlock (js ''Category:'') 2 \<and>
   blockCategory privacyBlock = js ''privacy'' \<and>
   \<not> occursCI untitledBlock (js ''Severity:'') \<and> blockSeverity untitledBlock = js ''medium'' \<and>
   \<not> occursCI untitledBlock (js ''Category:'') \<and> blockCategory untitledBlock = js ''general'' \<and>
   concerningClauses (parseAIResponse exampleResponse) =
     [\<lparr>title = js ''Broad Discretion'', text' = js ''This clause is vague.'',
       severity = js ''high'', category = js ''legal-rights''\<rparr>] \<and>
   js ''high'' \<in> severities \<and> js ''legal-rights'' \<in> categories"
proof -
  note labelled = severity_category_valid [where b = labelledBlock and a = "js ''Low''" and n = 10
      and ws = "[9]" and w = "js ''LOW''"
      and post = "[10] @ js ''category:   data'' @ [9] @ js ''USAGE''"
      and c = "js ''Data''" and d = "js ''Usage''" and m = 24 and ws' = "js ''   ''"
      and u = "js ''data''" and x = 9 and v = "js ''USAGE''" and post' = "[]"]
  note privacy = severity_category_valid [where b = privacyBlock and m = 2 and ws' = "js '' ''"
      and w' = "js ''privacy''" and post' = "js ''!''"]
  note none = severity_category_valid [where b = untitledBlock
      and cl = "\<lparr>title = js ''Broad Discretion'', text' = js ''This clause is vague.'',
                 severity = js ''high'', category = js ''legal-rights''\<rparr>"
      and s = exampleResponse]
  from labelled have "blockSeverity labelledBlock = toLowerCase (js ''Low'')"
    using labelledBlock_occurrences(1) labelledBlock_parts(1) label_samples by blast
  then have sev: "blockSeverity labelledBlock = js ''low''" by (simp add: label_samples)
  from labelled have "blockCategory labelledBlock =
      toLowerCase (js ''Data'') @ js ''-'' @ toLowerCase (js ''Usage'')"
    using labelledBlock_occurrences(2) labelledBlock_parts(2) label_samples by blast
  then have cat: "blockCategory labelledBlock = js ''data-usage''" by (simp add: word_evals)
  from privacy have priv: "blockCategory privacyBlock = js ''privacy''"
    using labelledBlock_occurrences(3) labelledBlock_parts(3) label_samples by blast
  from none have def: "blockSeverity untitledBlock = js ''medium''"
      "blockCategory untitledBlock = js ''general''"
    using unlabelled_block by blast+
  from none have "severity \<lparr>title = js ''Broad Discretion'', text' = js ''This clause is vague.'',
      severity = js ''high'', category = js ''legal-rights''\<rparr> \<in> severities \<and>
      category \<lparr>title = js ''Broad Discretion'', text' = js ''This clause is vague.'',
      severity = js ''high'', category = js ''legal-rights''\<rparr> \<in> categories"
    using example_clauses by (simp add: parseAIResponse_def)
  then have enums: "js ''high'' \<in> severities" "js ''legal-rights'' \<in> categories" by simp_all
  from sev cat priv def enums labelledBlock_occurrences unlabelled_block example_clauses
  show ?thesis by (simp add: parseAIResponse_def)
qed

text \<open>
  The claim as stated lets the white space inside a name vary. The pattern has a single
  \<open>\s\<close> there: with two spaces between \<open>Data\<close> and \<open>Usage\<close> the label is not matched and
  the category is \<open>general\<close>, while one space gives \<open>data-usage\<close>.
\<close>

theorem two_spaces_not_matched:
  "blockCategory twoSpaceLabel = js ''general'' \<and>
   blockCategory oneSpaceLabel = js ''data-usage'' \<and>
   blockCategory twoSpaceLabel \<noteq> blockCategory oneSpaceLabel"
proof -
  have two: "blockCategory twoSpaceLabel = js ''general''"
    by (simp add: twoSpaceLabel_def evalDefs flagDefs reDefs parseDefs)
  have one: "blockCategory oneSpaceLabel = js ''data-usage''"
    by (simp add: oneSpaceLabel_def evalDefs flagDefs reDefs parseDefs)
  show ?thesis unfolding two one by (simp add: js_def)
qed


section \<open>Plain text through the converter\<close>

lemma searchFrom_None_replace:
  "searchFrom f r bef rest = None \<Longrightarrow> replaceAllFrom f r tmpl bef rest 0 = rest"
  by (induction rest arbitrary: bef) (auto split: option.splits)

lemma replaceAll_no_match:
  assumes "\<not> regexTest f r s"
  shows "replaceAll f r tmpl s = s"
proof -
  from assms have "searchFrom f r [] s = None"
    by (cases "searchFrom f r [] s") (simp_all add: regexTest_def regexExec_def)
  then show ?thesis by (simp add: replaceAll_def searchFrom_None_replace)
qed

lemma processLine_plain: "plainLine (trim l) \<Longrightarrow> processLine l = trim l"
  by (simp add: processLine_def plainLine_def stripListMarker_def inlineMarkdown_def replaceAll_no_match)

lemma convert_plain_lines:
  "list_all (\<lambda>l. plainLine (trim l)) ls \<Longrightarrow>
   filter (\<lambda>l. l \<noteq> []) (map processLine ls) = filter (\<lambda>l. l \<noteq> []) (map trim ls)"
  by (induction ls) (simp_all add: processLine_plain)

lemma trimmedLines_empty: "trimmedLines [] = []"
  by (simp add: trimmedLines_def trim_def)

lemma convert_plain:
  assumes "noMarkdownSyntax s"
  shows "convertMarkdownToHtml s = joinWith (js ''<br>'') (trimmedLines s)"
proof (cases "s = []")
  case True
  then show ?thesis by (simp add: convertMarkdownToHtml_def trimmedLines_empty)
next
  case False
  from assms have "filter (\<lambda>l. l \<noteq> []) (map processLine (splitOn 10 s)) = trimmedLines s"
    unfolding noMarkdownSyntax_def trimmedLines_def by (rule convert_plain_lines)
  with False show ?thesis by (simp add: convertMarkdownToHtml_def)
qed

lemma splitOn_nonempty: "splitOn sep s \<noteq> []"
  by (induction s) (auto split: list.splits)

lemma set_splitOn: "l \<in> set (splitOn sep s) \<Longrightarrow> set l \<subseteq> set s \<and> sep \<notin> set l"
proof (induction s arbitrary: l)
  case Nil
  then show ?case by simp
next
  case (Cons c s)
  show ?case
  proof (cases "c = sep")
    case True
    with Cons show ?thesis by auto
  next
    case False
    obtain x xs where sp: "splitOn sep s = x # xs"
      using splitOn_nonempty [of sep s] by (cases "splitOn sep s") auto
    with False Cons.prems have "l = c # x \<or> l \<in> set xs" by auto
    then show ?thesis
    proof
      assume "l = c # x"
      moreover have "set x \<subseteq> set s \<and> sep \<notin> set x" using Cons.IH [of x] sp by simp
      ultimately show ?thesis using False by auto
    next
      assume "l \<in> set xs"
      then have "set l \<subseteq> set s \<and> sep \<notin> set l" using Cons.IH [of l] sp by simp
      then show ?thesis by auto
    qed
  qed
qed

lemma startsWith_member: "startsWith s (c # p) \<Longrightarrow> c \<in> set s"
  by (cases s) (auto simp: startsWith_def)

lemma lit_absent: "c \<notin> set rest \<Longrightarrow> \<not> litAt noFlags (c # l) rest"
proof
  assume "c \<notin> set rest" and "litAt noFlags (c # l) rest"
  from litAt_member [OF this(2)] this(1) show False by (simp add: noFlags_def)
qed

lemma lit_first_none:
  "c \<notin> set rest \<Longrightarrow> matchHere noFlags (Seq (Lit (c # l)) r) bef rest = None"
  by (simp add: matchHere_Lit_first lit_absent)

lemma behind_lit_none:
  "c \<notin> set rest \<Longrightarrow> matchHere noFlags (Seq (NotBehind k) (Seq (Lit (c # l)) r)) bef rest = None"
  by (simp add: matchHere_def lit_absent split: list.splits)

lemma no_char_no_test:
  assumes "\<And>b t. set t \<subseteq> set s \<Longrightarrow> matchHere noFlags r b t = None"
  shows "\<not> regexTest noFlags r s"
  using searchFrom_None_all [of s noFlags r "[]"] assms by (simp add: regexTest_def regexExec_def)

lemma plain_characters_line:
  assumes "42 \<notin> set l" "95 \<notin> set l" "96 \<notin> set l" "\<not> startsWith l (js ''- '')"
  shows "plainLine l"
proof -
  have star: "\<not> startsWith l (js ''* '')"
    using assms(1) startsWith_member [of l 42 "[32]"] by (auto simp: js_def)
  have b1: "\<not> regexTest noFlags reBoldStar l"
    using assms(1) by (intro no_char_no_test) (auto simp: reBoldStar_def js_def intro!: lit_first_none)
  have b2: "\<not> regexTest noFlags reBoldUnderscore l"
    using assms(2) by (intro no_char_no_test) (auto simp: reBoldUnderscore_def js_def intro!: lit_first_none)
  have i1: "\<not> regexTest noFlags reItalicStar l"
    using assms(1) by (intro no_char_no_test) (auto simp: reItalicStar_def js_def intro!: behind_lit_none)
  have i2: "\<not> regexTest noFlags reItalicUnderscore l"
    using assms(2) by (intro no_char_no_test) (auto simp: reItalicUnderscore_def js_def intro!: behind_lit_none)
  have c: "\<not> regexTest noFlags reCode l"
    using assms(3) by (intro no_char_no_test) (auto simp: reCode_def intro!: lit_first_none)
  from star assms(4) b1 b2 i1 i2 c show ?thesis by (simp add: plainLine_def)
qed

lemma plain_characters_no_markdown:
  assumes "42 \<notin> set s" "95 \<notin> set s" "96 \<notin> set s"
    "list_all (\<lambda>l. \<not> startsWith (trim l) (js ''- '')) (splitOn 10 s)"
  shows "noMarkdownSyntax s"
proof -
  have "plainLine (trim l)" if l: "l \<in> set (splitOn 10 s)" for l
  proof -
    from set_splitOn [OF l] set_trim [of l] have "set (trim l) \<subseteq> set s" by auto
    with assms(1-3) have "42 \<notin> set (trim l)" "95 \<notin> set (trim l)" "96 \<notin> set (trim l)" by auto
    moreover from assms(4) l have "\<not> startsWith (trim l) (js ''- '')" by (simp add: list_all_iff)
    ultimately show ?thesis by (rule plain_characters_line)
  qed
  then show ?thesis by (simp add: noMarkdownSyntax_def list_all_iff)
qed


lemma plainExample_lines: "trimmedLines plainExample = [js ''Hello world'', js ''second line'']"
  by (simp add: plainExample_def trimmedLines_def evalDefs)

lemma blankLineText_plain: "noMarkdownSyntax blankLineText" "noMarkupTags blankLineText"
  by (simp_all add: blankLineText_def noMarkdownSyntax_def noMarkupTags_def plainLine_def
      evalDefs flagDefs reDefs)

lemma blankLineText_lines: "trimmedLines blankLineText = [js ''a'', js ''b'']"
  by (simp add: blankLineText_def trimmedLines_def evalDefs)

lemma plainExample_characters:
  "42 \<notin> set plainExample" "95 \<notin> set plainExample" "96 \<notin> set plainExample"
  "list_all (\<lambda>l. \<not> startsWith (trim l) (js ''- '')) (splitOn 10 plainExample)"
  by (simp_all add: plainExample_def evalDefs)

text \<open>
  Claim C7, as amended. For a text without markdown syntax the converter returns its
  lines with the white space at both ends of each line removed and the lines that are
  then empty left out, joined by the line-break marker; the text within a line is
  unchanged. A text is without markdown syntax, in particular, when it holds no
  asterisk, underscore or backquote and none of its lines, trimmed, starts with a
  hyphen and a space.
\<close>

theorem markdown_free_passthrough:
  "(noMarkdownSyntax s \<longrightarrow>
      convertMarkdownToHtml s = joinWith (js ''<br>'') (trimmedLines s)) \<and>
   (42 \<notin> set s \<and> 95 \<notin> set s \<and> 96 \<notin> set s \<and>
    list_all (\<lambda>l. \<not> startsWith (trim l) (js ''- '')) (splitOn 10 s) \<longrightarrow>
      noMarkdownSyntax s)"
  using convert_plain plain_characters_no_markdown by blast

theorem markdown_free_passthrough_witness:
  "42 \<notin> set plainExample \<and> 95 \<notin> set plainExample \<and> 96 \<notin> set plainExample \<and>
   list_all (\<lambda>l. \<not> startsWith (trim l) (js ''- '')) (splitOn 10 plainExample) \<and>
   noMarkdownSyntax plainExample \<and>
   convertMarkdownToHtml plainExample = js ''Hello world<br>second line''"
proof -
  from markdown_free_passthrough [of plainExample] plainExample_characters
  have n: "noMarkdownSyntax plainExample" by blast
  with markdown_free_passthrough [of plainExample]
  have "convertMarkdownToHtml plainExample = joinWith (js ''<br>'') (trimmedLines plainExample)"
    by blast
  with n plainExample_characters show ?thesis
    by (simp add: plainExample_lines js_def)
qed

text \<open>
  The claim as stated has every newline replaced and nothing else changed. A blank line
  is dropped: two newlines between \<open>a\<close> and \<open>b\<close> give one marker, not two.
\<close>

theorem blank_line_dropped:
  "\<not> (\<forall>s. noMarkdownSyntax s \<longrightarrow> convertMarkdownToHtml s = lineBreakSubstitution s)"
proof
  assume "\<forall>s. noMarkdownSyntax s \<longrightarrow> convertMarkdownToHtml s = lineBreakSubstitution s"
  with blankLineText_plain(1)
  have eq: "convertMarkdownToHtml blankLineText = lineBreakSubstitution blankLineText" by blast
  have c: "convertMarkdownToHtml blankLineText = js ''a<br>b''"
    using convert_plain [OF blankLineText_plain(1)] by (simp add: blankLineText_lines js_def)
  have l: "lineBreakSubstitution blankLineText = js ''a<br><br>b''"
    by (simp add: lineBreakSubstitution_def blankLineText_def js_def)
  from eq c l show False by (simp add: js_def)
qed


section \<open>From markup back to plain text\<close>





























section \<open>The reply of the model API: success and failure\<close>

lemma handleData_success:
  "replyText data = Some (JString t) \<Longrightarrow> t \<noteq> [] \<Longrightarrow> handleData data = Inr (parseAIResponse t)"
  by (simp add: handleData_def)

lemma handleData_Inr:
  assumes "handleData data = Inr r"
  shows "\<exists>t. replyText data = Some (JString t) \<and> t \<noteq> []"
proof (cases "replyText data")
  case None
  with assms show ?thesis by (simp add: handleData_def)
next
  case (Some v)
  with assms show ?thesis
    by (cases v) (auto simp: handleData_def split: if_splits)
qed

lemma handleData_absent:
  "replyText data = None \<or> replyText data = Some (JString []) \<Longrightarrow> handleData data = Inl UnexpectedFormat"
  by (auto simp: handleData_def)

text \<open>
  Claim C9. A parsed reply is treated as a success exactly when the value at
  \<open>candidates[0].content.parts[0].text\<close> is a non-empty string; the result is then the
  parse of that string. When the value is absent or the empty string the call throws
  the ``unexpected response format'' error; no reply yields an empty analysis instead.
  With an API key and an HTTP response that is \<open>ok\<close>, \<open>processWithAI\<close> is this handling
  of the reply.
\<close>

theorem reply_success_iff:
  "((\<exists>r. handleData data = Inr r) \<longleftrightarrow> (\<exists>t. replyText data = Some (JString t) \<and> t \<noteq> [])) \<and>
   (replyText data = Some (JString t) \<and> t \<noteq> [] \<longrightarrow> handleData data = Inr (parseAIResponse t)) \<and>
   (replyText data = None \<or> replyText data = Some (JString []) \<longrightarrow>
      handleData data = Inl UnexpectedFormat) \<and>
   (k \<noteq> [] \<longrightarrow>
      processWithAI (Some k) (Some \<lparr>ok = True, status = st, bodyText = bt, bodyJson = Some data\<rparr>) =
      handleData data)"
proof (intro conjI)
  show "(\<exists>r. handleData data = Inr r) \<longleftrightarrow> (\<exists>t. replyText data = Some (JString t) \<and> t \<noteq> [])"
    using handleData_Inr handleData_success by blast
  show "replyText data = Some (JString t) \<and> t \<noteq> [] \<longrightarrow> handleData data = Inr (parseAIResponse t)"
    by (simp add: handleData_success)
  show "replyText data = None \<or> replyText data = Some (JString []) \<longrightarrow>
      handleData data = Inl UnexpectedFormat"
    using handleData_absent by blast
  show "k \<noteq> [] \<longrightarrow>
      processWithAI (Some k) (Some \<lparr>ok = True, status = st, bodyText = bt, bodyJson = Some data\<rparr>) =
      handleData data"
    by (simp add: processWithAI_def)
qed

lemma replyWith_text: "replyText (replyWith v) = Some v"
  by (simp add: replyText_def replyWith_def js_def)

lemma empty_object_text: "replyText (JObject []) = None"
  by (simp add: replyText_def)

theorem reply_success_iff_witness:
  "replyText (replyWith (JString (js ''hi''))) = Some (JString (js ''hi'')) \<and> js ''hi'' \<noteq> [] \<and>
   handleData (replyWith (JString (js ''hi''))) = Inr (parseAIResponse (js ''hi'')) \<and>
   replyText (JObject []) = None \<and> handleData (JObject []) = Inl UnexpectedFormat \<and>
   replyText (replyWith (JString [])) = Some (JString []) \<and>
   handleData (replyWith (JString [])) = Inl UnexpectedFormat \<and>
   js ''key'' \<noteq> [] \<and>
   processWithAI (Some (js ''key''))
     (Some \<lparr>ok = True, status = 200, bodyText = None, bodyJson = Some (replyWith (JString (js ''hi'')))\<rparr>) =
     Inr (parseAIResponse (js ''hi''))"
  using reply_success_iff [of "replyWith (JString (js ''hi''))" "js ''hi''" "js ''key''" 200 None]
    reply_success_iff [of "JObject []"] reply_success_iff [of "replyWith (JString [])"]
    replyWith_text empty_object_text
  by (simp add: js_def)


section \<open>The extractor's thresholds\<close>

lemma firstSome_Some: "firstSome f xs = Some y \<Longrightarrow> \<exists>x \<in> set xs. f x = Some y"
  by (induction xs) (auto split: option.splits)

lemma selectorCandidate_long: "selectorCandidate d sel = Some t \<Longrightarrow> 500 < length t"
  by (auto simp: selectorCandidate_def Let_def split: option.splits if_splits)

lemma headingCandidate_long: "headingCandidate h = Some t \<Longrightarrow> 500 < length t"
  by (cases h)
     (auto simp: headingCandidate_def parentCandidate_def Let_def split: option.splits if_splits)

lemma iframeCandidate_long: "iframeCandidate likely fr = Some t \<Longrightarrow> 1000 < length t"
  by (auto simp: iframeCandidate_def Let_def split: option.splits if_splits)

lemma containerCandidate_long: "containerCandidate d sel = Some t \<Longrightarrow> 1000 < length t"
  by (auto simp: containerCandidate_def Let_def split: option.splits if_splits)

lemma bodyCandidate_long: "bodyCandidate d = Some t \<Longrightarrow> 1500 < length t"
  by (auto simp: bodyCandidate_def Let_def split: option.splits if_splits)

lemma lowerStrategies_long:
  assumes "lowerStrategies d = Some t"
  shows "500 < length t"
proof -
  from assms consider
      (h) "firstSome headingCandidate (filter (\<lambda>h. isHeading (fst h)) (allElements d)) = Some t"
    | (f) "firstSome (iframeCandidate (isLikelyTCPage d))
             (filter (hasName (js ''iframe'')) (map fst (allElements d))) = Some t"
    | (c) "firstSome (containerCandidate d) commonContainers = Some t"
    | (b) "bodyCandidate d = Some t"
    by (auto simp: lowerStrategies_def split: option.splits if_splits)
  then show ?thesis
  proof cases
    case h
    then show ?thesis by (blast dest: firstSome_Some headingCandidate_long)
  next
    case f
    then obtain x where "iframeCandidate (isLikelyTCPage d) x = Some t" by (blast dest: firstSome_Some)
    from iframeCandidate_long [OF this] show ?thesis by simp
  next
    case c
    then obtain x where "containerCandidate d x = Some t" by (blast dest: firstSome_Some)
    from containerCandidate_long [OF this] show ?thesis by simp
  next
    case b
    from bodyCandidate_long [OF this] show ?thesis by simp
  qed
qed

lemma extract_long:
  assumes "extractTermsAndConditions d = Some t"
  shows "500 < length t"
proof (cases "firstSome (selectorCandidate d) possibleSelectors")
  case None
  with assms show ?thesis by (simp add: extractTermsAndConditions_def lowerStrategies_long)
next
  case (Some u)
  with assms have "firstSome (selectorCandidate d) possibleSelectors = Some t"
    by (simp add: extractTermsAndConditions_def)
  then show ?thesis by (blast dest: firstSome_Some selectorCandidate_long)
qed

lemma parentCandidate_long: "parentCandidate h p = Some t \<Longrightarrow> 1000 < length t"
  by (auto simp: parentCandidate_def Let_def split: option.splits if_splits)

lemma twoSpaces_none: "\<not> isWhiteSpace x \<Longrightarrow> matchHere noFlags (Rep True 2 None CSpace) bef (x # xs) = None"
  by (simp add: matchHere_def)

lemma twoSpaces_end: "matchHere noFlags (Rep True 2 None CSpace) bef [] = None"
  by (simp add: matchHere_def)

lemma twoSpaces_noSpace:
  "noSpace xs \<Longrightarrow> replaceAllFrom noFlags (Rep True 2 None CSpace) tmpl bef xs 0 = xs"
  by (induction xs arbitrary: bef) (simp_all add: noSpace_def twoSpaces_none twoSpaces_end)

lemma trim_noSpace: "noSpace t \<Longrightarrow> trim t = t"
proof -
  assume t: "noSpace t"
  then have "dropWhile isWhiteSpace t = t" by (cases t) (simp_all add: noSpace_def)
  moreover from t have "noSpace (rev t)" by (simp add: noSpace_def list_all_iff)
  then have "dropWhile isWhiteSpace (rev t) = rev t" by (cases "rev t") (simp_all add: noSpace_def)
  ultimately show ?thesis by (simp add: trim_def)
qed

lemma collapseSpaces_noSpace: "noSpace t \<Longrightarrow> collapseSpaces t = t"
  by (simp add: collapseSpaces_def replaceAll_def twoSpaces_noSpace trim_noSpace)

lemma longText_facts: "noSpace longText" "length longText = 600"
  by (simp_all add: longText_def noSpace_def list_all_iff isWhiteSpace_def)

lemma short_facts: "collapseSpaces (js ''short'') = js ''short''" "length (js ''short'') = 5"
  by (simp_all add: collapseSpaces_noSpace noSpace_def js_def isWhiteSpace_def)

lemmas domDefs = allElements_def querySelector_def body_def selectorCandidate_def
  getTextContentWithoutScriptsStyles_def possibleSelectors_def commonContainers_def
  extractTermsAndConditions_def lowerStrategies_def isHeading_def isLikelyTCPage_def reLikely_def

lemma termsPage_query: "querySelector termsPage (ById (js ''terms'')) = Some termsDiv"
  by (simp add: termsPage_def termsDiv_def domDefs js_def)

lemma termsDiv_text: "getTextContentWithoutScriptsStyles termsDiv = longText"
  by (simp add: termsDiv_def getTextContentWithoutScriptsStyles_def collapseSpaces_noSpace longText_facts)

lemma termsPage_extract: "extractTermsAndConditions termsPage = Some longText"
  by (simp add: extractTermsAndConditions_def possibleSelectors_def selectorCandidate_def
      termsPage_query termsDiv_text longText_facts)

lemma longDiv_text: "getTextContentWithoutScriptsStyles longDiv = longText"
  by (simp add: longDiv_def getTextContentWithoutScriptsStyles_def collapseSpaces_noSpace longText_facts)

lemma shadowed_elements:
  "map fst (allElements shadowedPage) =
     [Element (js ''html'') [] [] None [Element (js ''body'') [] [] None [shortDiv, longDiv]],
      Element (js ''body'') [] [] None [shortDiv, longDiv], shortDiv, longDiv]"
  by (simp add: allElements_def shadowedPage_def longDiv_def shortDiv_def)

lemma shortDiv_text: "getTextContentWithoutScriptsStyles shortDiv = js ''short''"
  by (simp add: shortDiv_def getTextContentWithoutScriptsStyles_def short_facts)

lemma shadowed_query:
  "querySelector shadowedPage sel = None \<or> querySelector shadowedPage sel = Some shortDiv"
  if "case sel of ById x \<Rightarrow> x \<noteq> [] | ByTag x \<Rightarrow> False | _ \<Rightarrow> True"
  using that
  by (cases sel) (auto simp: querySelector_def shadowed_elements shortDiv_def longDiv_def)

lemma shadowed_candidate:
  assumes "case sel of ById x \<Rightarrow> x \<noteq> [] | ByTag x \<Rightarrow> False | _ \<Rightarrow> True"
  shows "selectorCandidate shadowedPage sel = None"
  using shadowed_query [OF assms]
  by (auto simp: selectorCandidate_def shortDiv_text short_facts)

lemma firstSome_None: "(\<And>x. x \<in> set xs \<Longrightarrow> f x = None) \<Longrightarrow> firstSome f xs = None"
  by (induction xs) simp_all

lemma possibleSelectors_kinds:
  "sel \<in> set possibleSelectors \<Longrightarrow> (case sel of ById x \<Rightarrow> x \<noteq> [] | ByTag x \<Rightarrow> False | _ \<Rightarrow> True)"
  by (auto simp: possibleSelectors_def js_def)

lemma shadowed_selectors: "firstSome (selectorCandidate shadowedPage) possibleSelectors = None"
  by (rule firstSome_None) (rule shadowed_candidate, rule possibleSelectors_kinds)

lemma shadowed_lower: "lowerStrategies shadowedPage = None"
proof -
  have "filter (\<lambda>h. isHeading (fst h)) (allElements shadowedPage) = []"
    by (simp add: allElements_def shadowedPage_def shortDiv_def longDiv_def isHeading_def js_def)
  moreover have "filter (hasName (js ''iframe'')) (map fst (allElements shadowedPage)) = []"
    by (simp add: shadowed_elements shortDiv_def longDiv_def js_def)
  moreover have "\<not> isLikelyTCPage shadowedPage"
    by (simp add: isLikelyTCPage_def shadowedPage_def reLikely_def regexTest_def regexExec_def
        matchHere_def flagI_def canonicalize_def js_def)
  ultimately show ?thesis by (simp add: lowerStrategies_def)
qed

lemma shadowed_extract: "extractTermsAndConditions shadowedPage = None"
  by (simp add: extractTermsAndConditions_def shadowed_selectors shadowed_lower)

lemma longDiv_in_page:
  "longDiv \<in> set (map fst (allElements shadowedPage))" "matchesSelector (ByClass (js ''terms'')) longDiv"
  "ByClass (js ''terms'') \<in> set possibleSelectors"
  by (simp_all add: shadowed_elements) (simp_all add: longDiv_def possibleSelectors_def js_def)

lemma longerText_facts: "noSpace longerText" "length longerText = 1600"
  by (simp_all add: longerText_def noSpace_def list_all_iff isWhiteSpace_def)

lemma noSpace_append: "noSpace a \<Longrightarrow> noSpace b \<Longrightarrow> noSpace (a @ b)"
  by (simp add: noSpace_def)

lemma noSpace_Terms: "noSpace (js ''Terms'')"
  by (simp add: noSpace_def js_def isWhiteSpace_def)

lemma isWhiteSpace_newline: "isWhiteSpace 10"
  by (simp add: isWhiteSpace_def)

lemma trim_trailing_newlines:
  assumes "noSpace t" "t \<noteq> []"
  shows "trim (t @ [10, 10]) = t"
proof -
  have front: "dropWhile isWhiteSpace (t @ [10, 10]) = t @ [10, 10]"
    using assms by (cases t) (simp_all add: noSpace_def)
  have "noSpace (rev t)" using assms(1) by (simp add: noSpace_def list_all_iff)
  then have "dropWhile isWhiteSpace (rev t) = rev t"
    by (cases "rev t") (simp_all add: noSpace_def)
  then have "dropWhile isWhiteSpace (rev (t @ [10, 10])) = rev t"
    by (simp add: isWhiteSpace_newline)
  with front show ?thesis by (simp add: trim_def)
qed

lemma longText_nonempty: "longText \<noteq> []"
  using longText_facts(2) by auto

lemma policyFrame_candidate: "iframeCandidate True policyFrame = Some longerText"
  by (simp add: iframeCandidate_def policyFrame_def trim_noSpace collapseSpaces_noSpace longerText_facts)

lemma headedSection_candidate:
  "parentCandidate termsHeading (Some headedSection) = Some (js ''Terms'' @ longerText)"
proof -
  have t: "getTextContentWithoutScriptsStyles headedSection = js ''Terms'' @ longerText"
    using collapseSpaces_noSpace [OF noSpace_append [OF noSpace_Terms longerText_facts(1)]]
    by (simp add: getTextContentWithoutScriptsStyles_def headedSection_def termsHeading_def)
       (simp add: js_def)
  have i: "jsIncludes (js ''Terms'' @ longerText) (textContent termsHeading)"
    by (simp add: termsHeading_def startsWith_def js_def)
  show ?thesis
    using i by (simp add: parentCandidate_def t longerText_facts) (simp add: js_def)
qed

lemma heading_siblings_candidate:
  "headingCandidate (termsHeading, None, [longParagraph]) = Some longText"
proof -
  have k: "list_ex (jsIncludes (toLowerCase (textContent termsHeading))) headingKeywords"
    by (simp add: termsHeading_def headingKeywords_def toLowerCase_def lowerUnit_def startsWith_def js_def)
  have p: "getTextContentWithoutScriptsStyles longParagraph = longText"
    by (simp add: longParagraph_def getTextContentWithoutScriptsStyles_def collapseSpaces_noSpace longText_facts)
  have tag: "\<not> regexTest noFlags reHeadingTag (tagName longParagraph)"
    "tagName longParagraph \<noteq> js ''SCRIPT''" "tagName longParagraph \<noteq> js ''STYLE''"
    by (simp_all add: longParagraph_def reHeadingTag_def regexTest_def regexExec_def matchHere_def
        noFlags_def canonicalize_def upperUnit_def js_def)
  have "collectSiblings [longParagraph] [] 0 = longText @ [10, 10]"
    using tag by (simp add: p)
  then show ?thesis
    using k by (simp add: headingCandidate_def parentCandidate_def trim_trailing_newlines longText_facts
        longText_nonempty)
qed

lemma articlePage_candidates:
  "containerCandidate articlePage (ByTag (js ''main'')) = Some longerText"
  "bodyCandidate articlePage = Some longerText"
proof -
  have m: "getTextContentWithoutScriptsStyles (Element (js ''main'') [] [] None [Text longerText]) = longerText"
    by (simp add: getTextContentWithoutScriptsStyles_def collapseSpaces_noSpace longerText_facts)
  have b: "getTextContentWithoutScriptsStyles
      (Element (js ''body'') [] [] None [Element (js ''main'') [] [] None [Text longerText]]) = longerText"
    by (simp add: getTextContentWithoutScriptsStyles_def collapseSpaces_noSpace longerText_facts)
       (simp add: js_def)
  have q: "querySelector articlePage (ByTag (js ''main'')) =
      Some (Element (js ''main'') [] [] None [Text longerText])"
    by (simp add: querySelector_def allElements_def articlePage_def js_def)
  have bd: "body articlePage =
      Some (Element (js ''body'') [] [] None [Element (js ''main'') [] [] None [Text longerText]])"
    by (simp add: body_def articlePage_def js_def)
  show "containerCandidate articlePage (ByTag (js ''main'')) = Some longerText"
    by (simp add: containerCandidate_def q m longerText_facts)
  show "bodyCandidate articlePage = Some longerText"
    by (simp add: bodyCandidate_def bd b longerText_facts)
qed

lemma termsPage_selector: "selectorCandidate termsPage (ById (js ''terms'')) = Some longText"
  by (simp add: selectorCandidate_def termsPage_query termsDiv_text longText_facts)

text \<open>
  Claim C10. A string returned by the extractor is longer than 500: a selector match and
  a sibling walk are accepted above 500 only, a heading's parent, an iframe and a
  common container above 1000, the whole body above 1500.
\<close>

theorem extracted_text_long:
  "(extractTermsAndConditions d = Some t \<longrightarrow> 500 < length t) \<and>
   (selectorCandidate d sel = Some t \<longrightarrow> 500 < length t) \<and>
   (headingCandidate h = Some t \<longrightarrow> 500 < length t) \<and>
   (parentCandidate heading parent = Some t \<longrightarrow> 1000 < length t) \<and>
   (iframeCandidate likely iframe = Some t \<longrightarrow> 1000 < length t) \<and>
   (containerCandidate d sel = Some t \<longrightarrow> 1000 < length t) \<and>
   (bodyCandidate d = Some t \<longrightarrow> 1500 < length t)"
  using extract_long selectorCandidate_long headingCandidate_long parentCandidate_long
    iframeCandidate_long containerCandidate_long bodyCandidate_long
  by blast

theorem extracted_text_long_witness:
  "extractTermsAndConditions termsPage = Some longText \<and>
   selectorCandidate termsPage (ById (js ''terms'')) = Some longText \<and>
   headingCandidate (termsHeading, None, [longParagraph]) = Some longText \<and>
   length longText = 600 \<and>
   parentCandidate termsHeading (Some headedSection) = Some (js ''Terms'' @ longerText) \<and>
   1000 < length (js ''Terms'' @ longerText) \<and>
   iframeCandidate True policyFrame = Some longerText \<and>
   containerCandidate articlePage (ByTag (js ''main'')) = Some longerText \<and>
   bodyCandidate articlePage = Some longerText \<and> length longerText = 1600"
  using extracted_text_long [of termsPage longText "ById (js ''terms'')"
      "(termsHeading, None, [longParagraph])" termsHeading "Some headedSection" True policyFrame]
    extracted_text_long [of articlePage longerText "ByTag (js ''main'')"
      "(termsHeading, None, [longParagraph])" termsHeading "Some headedSection" True policyFrame]
    extracted_text_long [of termsPage "js ''Terms'' @ longerText" "ById (js ''terms'')"
      "(termsHeading, None, [longParagraph])" termsHeading "Some headedSection" True policyFrame]
    termsPage_extract termsPage_selector heading_siblings_candidate headedSection_candidate
    policyFrame_candidate articlePage_candidates longText_facts longerText_facts
  by simp


section \<open>The known selectors\<close>

lemma firstSome_first:
  "(\<And>s. s \<in> set before \<Longrightarrow> f s = None) \<Longrightarrow> f x = Some t \<Longrightarrow>
   firstSome f (before @ x # after) = Some t"
  by (induction before) simp_all

lemma firstSome_member:
  "x \<in> set xs \<Longrightarrow> f x = Some t \<Longrightarrow> \<exists>t'. firstSome f xs = Some t'"
  by (induction xs) (auto split: option.splits)

lemma selectorCandidate_Some:
  "selectorCandidate d sel = Some t \<Longrightarrow>
   \<exists>e. querySelector d sel = Some e \<and> t = getTextContentWithoutScriptsStyles e \<and> 500 < length t"
  by (auto simp: selectorCandidate_def Let_def split: option.splits if_splits)

lemma selectorCandidate_accept:
  "querySelector d sel = Some e \<Longrightarrow> 500 < length (getTextContentWithoutScriptsStyles e) \<Longrightarrow>
   selectorCandidate d sel = Some (getTextContentWithoutScriptsStyles e)"
  by (simp add: selectorCandidate_def)

lemma extract_selectors:
  "firstSome (selectorCandidate d) possibleSelectors = Some t \<Longrightarrow> extractTermsAndConditions d = Some t"
  by (simp add: extractTermsAndConditions_def)

text \<open>
  Claim C8, as amended. When, for some known selector, the first element of the document
  that matches it has cleaned text longer than 500, the extractor returns the cleaned
  text of such a first match, and its result is the result of the loop over the known
  selectors alone: no later strategy contributes. The text returned is that of the
  selector itself when no selector before it in the list succeeds.
\<close>

theorem selector_first_match_returned:
  assumes "sel \<in> set possibleSelectors" "querySelector d sel = Some e"
    "500 < length (getTextContentWithoutScriptsStyles e)"
  shows "(\<exists>sel' e'. sel' \<in> set possibleSelectors \<and> querySelector d sel' = Some e' \<and>
            500 < length (getTextContentWithoutScriptsStyles e') \<and>
            extractTermsAndConditions d = Some (getTextContentWithoutScriptsStyles e')) \<and>
         extractTermsAndConditions d = firstSome (selectorCandidate d) possibleSelectors \<and>
         (\<forall>before after. possibleSelectors = before @ sel # after \<and>
              (\<forall>s \<in> set before. selectorCandidate d s = None) \<longrightarrow>
              extractTermsAndConditions d = Some (getTextContentWithoutScriptsStyles e))"
proof -
  let ?get = getTextContentWithoutScriptsStyles
  have cand: "selectorCandidate d sel = Some (?get e)"
    using assms(2,3) by (rule selectorCandidate_accept)
  with assms(1) obtain t where t: "firstSome (selectorCandidate d) possibleSelectors = Some t"
    by (blast dest: firstSome_member)
  then obtain sel' where "sel' \<in> set possibleSelectors" "selectorCandidate d sel' = Some t"
    by (blast dest: firstSome_Some)
  then have a: "\<exists>sel' e'. sel' \<in> set possibleSelectors \<and> querySelector d sel' = Some e' \<and>
            500 < length (?get e') \<and> extractTermsAndConditions d = Some (?get e')"
    using extract_selectors [OF t] by (blast dest: selectorCandidate_Some)
  have b: "extractTermsAndConditions d = firstSome (selectorCandidate d) possibleSelectors"
    using t by (simp add: extractTermsAndConditions_def)
  have c: "extractTermsAndConditions d = Some (?get e)"
    if "possibleSelectors = before @ sel # after" "\<forall>s \<in> set before. selectorCandidate d s = None"
    for before after
  proof -
    have "firstSome (selectorCandidate d) (before @ sel # after) = Some (?get e)"
      using that(2) cand by (intro firstSome_first) auto
    then show ?thesis using that(1) by (simp add: extract_selectors)
  qed
  from a b c show ?thesis by blast
qed

lemma terms_first: "possibleSelectors = [] @ ById (js ''terms'') # tl possibleSelectors"
  by (simp add: possibleSelectors_def)

theorem selector_first_match_returned_witness:
  "ById (js ''terms'') \<in> set possibleSelectors \<and>
   querySelector termsPage (ById (js ''terms'')) = Some termsDiv \<and>
   getTextContentWithoutScriptsStyles termsDiv = longText \<and> length longText = 600 \<and>
   extractTermsAndConditions termsPage = Some longText \<and>
   firstSome (selectorCandidate termsPage) possibleSelectors = Some longText"
proof -
  have m: "ById (js ''terms'') \<in> set possibleSelectors"
    by (subst terms_first) simp
  have l: "500 < length (getTextContentWithoutScriptsStyles termsDiv)"
    by (simp add: termsDiv_text longText_facts)
  note inst = selector_first_match_returned [OF m termsPage_query l]
  from inst have all: "\<forall>before after. possibleSelectors = before @ ById (js ''terms'') # after \<and>
              (\<forall>s \<in> set before. selectorCandidate termsPage s = None) \<longrightarrow>
              extractTermsAndConditions termsPage = Some (getTextContentWithoutScriptsStyles termsDiv)"
    by (elim conjE)
  have e: "extractTermsAndConditions termsPage = Some (getTextContentWithoutScriptsStyles termsDiv)"
    using all [rule_format, of "[]" "tl possibleSelectors"] terms_first by simp
  from inst have f: "extractTermsAndConditions termsPage =
      firstSome (selectorCandidate termsPage) possibleSelectors"
    by (elim conjE)
  from e f m termsPage_query show ?thesis by (simp add: termsDiv_text longText_facts)
qed

text \<open>
  The claim as stated speaks of any matching element. \<open>querySelector\<close> gives the first
  match only: on a page whose first element of class \<open>terms\<close> is short and whose second
  holds 600 characters, no selector succeeds and, the page not looking like a terms
  page, the extractor returns null.
\<close>

theorem shadowed_match_not_returned:
  "\<not> (\<forall>d sel e. sel \<in> set possibleSelectors \<and> e \<in> set (map fst (allElements d)) \<and>
          matchesSelector sel e \<and> 500 < length (getTextContentWithoutScriptsStyles e) \<longrightarrow>
          extractTermsAndConditions d = Some (getTextContentWithoutScriptsStyles e))"
proof
  assume "\<forall>d sel e. sel \<in> set possibleSelectors \<and> e \<in> set (map fst (allElements d)) \<and>
          matchesSelector sel e \<and> 500 < length (getTextContentWithoutScriptsStyles e) \<longrightarrow>
          extractTermsAndConditions d = Some (getTextContentWithoutScriptsStyles e)"
  moreover have "500 < length (getTextContentWithoutScriptsStyles longDiv)"
    by (simp add: longDiv_text longText_facts)
  ultimately have "extractTermsAndConditions shadowedPage = Some (getTextContentWithoutScriptsStyles longDiv)"
    using longDiv_in_page by blast
  then show False by (simp add: shadowed_extract)
qed

end
